theory Spec2Isabelle
  imports Main "HOL-Library.Word" "HOL-Library.AList"
begin

unbundle bit_operations_syntax

section \<open>The Linux module finder: data model\<close>

text \<open>
  The development embeds \<^verbatim>\<open>src/modulefinder/sentry_modulefinder_linux.c\<close> for a
  64-bit little-endian host (\<^verbatim>\<open>uint64_t\<close>, \<^verbatim>\<open>size_t\<close> and \<^verbatim>\<open>uintptr_t\<close> are
  \<open>64 word\<close>; arithmetic on them wraps modulo \<open>2 ^ 64\<close> as unsigned C arithmetic does).

  The struct declarations live in the header \<^verbatim>\<open>sentry_modulefinder_linux.h\<close>; their
  fields are taken from the uses in the C file. Field names that clash between structs
  or with Isabelle names carry a suffix: \<open>size_r\<close> is \<^verbatim>\<open>sentry_mapped_region_t.size\<close>,
  \<open>offset_p\<close>, \<open>end_p\<close> and \<open>file_p\<close> are the \<^verbatim>\<open>offset\<close>, \<^verbatim>\<open>end\<close> and \<^verbatim>\<open>file\<close> fields
  of \<^verbatim>\<open>sentry_parsed_module_t\<close>, and \<open>file_m\<close> is \<^verbatim>\<open>sentry_module_t.file\<close>.
\<close>

type_synonym u8 = "8 word"
type_synonym u16 = "16 word"
type_synonym u32 = "32 word"
type_synonym u64 = "64 word"

record sentry_mapped_region_t =
  offset :: u64
  size_r :: u64
  addr :: u64

text \<open>
  A \<^verbatim>\<open>sentry_slice_t\<close> is a pointer into an immutable character buffer and a length.
  The pointer is modelled by the C string it points to (the characters from the pointer
  up to the terminating NUL); \<open>None\<close> is the null pointer.
\<close>

record sentry_slice_t =
  ptr :: "string option"
  len :: nat

record sentry_parsed_module_t =
  start :: u64
  end_p :: u64
  offset_p :: u64
  permissions :: string
  file_p :: sentry_slice_t

text \<open>
  \<^verbatim>\<open>sentry_module_t\<close> holds the array \<^verbatim>\<open>mappings[MAX_MAPPINGS]\<close> and the count
  \<^verbatim>\<open>num_mappings\<close> of its entries in use.
\<close>

record sentry_module_t =
  file_m :: sentry_slice_t
  mappings :: "sentry_mapped_region_t list"
  num_mappings :: nat

definition MAX_MAPPINGS :: nat where
  "MAX_MAPPINGS = 5"

definition UINT64_MAX :: u64 where
  "UINT64_MAX = 0xFFFFFFFFFFFFFFFF"

definition null_slice :: sentry_slice_t where
  "null_slice = \<lparr>ptr = None, len = 0\<rparr>"

definition zero_region :: sentry_mapped_region_t where
  "zero_region = \<lparr>offset = 0, size_r = 0, addr = 0\<rparr>"

text \<open>The value of \<^verbatim>\<open>sentry_module_t last_module = { 0 }\<close> and of the \<^verbatim>\<open>memset\<close> to zero.\<close>

definition zero_module :: sentry_module_t where
  "zero_module = \<lparr>file_m = null_slice, mappings = replicate MAX_MAPPINGS zero_region,
     num_mappings = 0\<rparr>"

section \<open>Address translation\<close>

text \<open>
  The body of the \<^verbatim>\<open>for\<close> loop of \<^verbatim>\<open>sentry__module_get_addr\<close>, one equation per
  remaining region; \<open>a\<close> is the local \<^verbatim>\<open>addr\<close>, \<open>addr_end\<close> the local of that name.
  \<open>None\<close> is the \<^verbatim>\<open>NULL\<close> result.
\<close>

fun get_addr_loop ::
  "sentry_mapped_region_t list \<Rightarrow> u64 \<Rightarrow> u64 \<Rightarrow> u64 \<Rightarrow> u64 \<Rightarrow> u64 option" where
  "get_addr_loop [] start_offset sz a addr_end = None"
| "get_addr_loop (mapping # rest) start_offset sz a addr_end =
     (if a \<noteq> 0 \<and> addr_end < addr mapping then None
      else
        let addr_end' = addr mapping + size_r mapping;
            a' = (if offset mapping \<le> start_offset
                     \<and> start_offset < offset mapping + size_r mapping
                  then start_offset - offset mapping + addr mapping
                  else a)
        in if a' \<noteq> 0 \<and> a' + sz \<le> addr_end' then Some a'
           else get_addr_loop rest start_offset sz a' addr_end')"

definition sentry__module_get_addr :: "sentry_module_t \<Rightarrow> u64 \<Rightarrow> u64 \<Rightarrow> u64 option" where
  "sentry__module_get_addr module start_offset sz =
     get_addr_loop (take (num_mappings module) (mappings module)) start_offset sz 0 UINT64_MAX"

section \<open>Coalescing of mapping fragments\<close>

text \<open>The test of the inner \<^verbatim>\<open>if\<close> of \<^verbatim>\<open>sentry__module_mapping_push\<close>.\<close>

definition contiguous_with ::
  "sentry_mapped_region_t \<Rightarrow> sentry_parsed_module_t \<Rightarrow> bool" where
  "contiguous_with last_mapping parsed \<longleftrightarrow>
     addr last_mapping + size_r last_mapping = start parsed
     \<and> offset last_mapping + size_r last_mapping = offset_p parsed"

definition sentry__module_mapping_push ::
  "sentry_module_t \<Rightarrow> sentry_parsed_module_t \<Rightarrow> sentry_module_t" where
  "sentry__module_mapping_push module parsed =
     (let sz = end_p parsed - start parsed;
          n = num_mappings module
      in if n \<noteq> 0 \<and> contiguous_with (mappings module ! (n - 1)) parsed
         then
           (let last_mapping = mappings module ! (n - 1)
            in module\<lparr>mappings :=
                 (mappings module)[n - 1 := last_mapping\<lparr>size_r := size_r last_mapping + sz\<rparr>]\<rparr>)
         else if n < MAX_MAPPINGS
         then module\<lparr>mappings :=
                 (mappings module)[n := \<lparr>offset = offset_p parsed, size_r = sz, addr = start parsed\<rparr>],
               num_mappings := n + 1\<rparr>
         else module)"

text \<open>The stored regions of a module: the entries of the array that are in use.\<close>

definition stored_regions :: "sentry_module_t \<Rightarrow> sentry_mapped_region_t list" where
  "stored_regions module = take (num_mappings module) (mappings module)"

text \<open>
  The shape every module built by this file has: the array has its declared capacity and
  the count does not exceed it.
\<close>

definition module_ok :: "sentry_module_t \<Rightarrow> bool" where
  "module_ok module \<longleftrightarrow>
     length (mappings module) = MAX_MAPPINGS \<and> num_mappings module \<le> MAX_MAPPINGS"

text \<open>The region the \<^verbatim>\<open>else\<close> branch of \<^verbatim>\<open>sentry__module_mapping_push\<close> stores for a fragment.\<close>

definition region_of :: "sentry_parsed_module_t \<Rightarrow> sentry_mapped_region_t" where
  "region_of parsed =
     \<lparr>offset = offset_p parsed, size_r = end_p parsed - start parsed, addr = start parsed\<rparr>"

text \<open>
  A list of fragments none of which continues an earlier one, in address and file offset
  at once.
\<close>

definition unmergeable :: "sentry_parsed_module_t list \<Rightarrow> bool" where
  "unmergeable ps \<longleftrightarrow>
     (\<forall>j < length ps. \<forall>i < j. \<not> contiguous_with (region_of (ps ! i)) (ps ! j))"

text \<open>
  The bytes of the address space that a list of regions covers, and the file offsets a
  region backs, both read as natural numbers (no wrap-around).
\<close>

definition mapped :: "sentry_mapped_region_t list \<Rightarrow> nat \<Rightarrow> bool" where
  "mapped rs x \<longleftrightarrow> (\<exists>r \<in> set rs. unat (addr r) \<le> x \<and> x < unat (addr r) + unat (size_r r))"

definition in_file_range :: "sentry_mapped_region_t \<Rightarrow> u64 \<Rightarrow> bool" where
  "in_file_range r start_offset \<longleftrightarrow>
     unat (offset r) \<le> unat start_offset
     \<and> unat start_offset < unat (offset r) + unat (size_r r)"

text \<open>Concrete modules and fragments used as inputs below.\<close>

definition one_page_module :: sentry_module_t where
  "one_page_module = zero_module\<lparr>mappings :=
      [\<lparr>offset = 0, size_r = 0x1000, addr = 0x1000\<rparr>,
       zero_region, zero_region, zero_region, zero_region],
      num_mappings := 1\<rparr>"

definition fragment :: "u64 \<Rightarrow> u64 \<Rightarrow> u64 \<Rightarrow> sentry_parsed_module_t" where
  "fragment s e off =
     \<lparr>start = s, end_p = e, offset_p = off, permissions = ''r-xp'', file_p = null_slice\<rparr>"

definition six_fragments :: "sentry_parsed_module_t list" where
  "six_fragments =
     [fragment 0x1000 0x2000 0, fragment 0x3000 0x4000 0, fragment 0x5000 0x6000 0,
      fragment 0x7000 0x8000 0, fragment 0x9000 0xA000 0, fragment 0xB000 0xC000 0]"

definition full_module :: sentry_module_t where
  "full_module = foldl sentry__module_mapping_push zero_module (take 5 six_fragments)"


section \<open>Process memory and the ELF structures\<close>

text \<open>
  The module finder reads the ELF headers of a module through pointers into the memory
  of its own process. The memory is a function from addresses to bytes; multi-byte fields
  are read in little-endian order. A pointer is an \<open>u64\<close>, and \<open>0\<close> is \<^verbatim>\<open>NULL\<close>.
\<close>

type_synonym memory = "u64 \<Rightarrow> u8"

definition read_u16 :: "memory \<Rightarrow> u64 \<Rightarrow> u16" where
  "read_u16 mem p = ucast (mem p) OR push_bit 8 (ucast (mem (p + 1)))"

definition read_u32 :: "memory \<Rightarrow> u64 \<Rightarrow> u32" where
  "read_u32 mem p = ucast (read_u16 mem p) OR push_bit 16 (ucast (read_u16 mem (p + 2)))"

definition read_u64 :: "memory \<Rightarrow> u64 \<Rightarrow> u64" where
  "read_u64 mem p = ucast (read_u32 mem p) OR push_bit 32 (ucast (read_u32 mem (p + 4)))"

definition read_bytes :: "memory \<Rightarrow> u64 \<Rightarrow> nat \<Rightarrow> u8 list" where
  "read_bytes mem p n = map (\<lambda>i. mem (p + of_nat i)) [0..<n]"

text \<open>
  The constants and the field offsets of \<^verbatim>\<open><elf.h>\<close>, which is a system header. Each
  accessor takes the memory and the address of the struct.
\<close>

definition EI_NIDENT :: u64 where "EI_NIDENT = 16"
definition EI_CLASS :: u64 where "EI_CLASS = 4"
definition ELFCLASS64 :: u8 where "ELFCLASS64 = 2"
definition PT_NOTE :: u32 where "PT_NOTE = 4"
definition NT_GNU_BUILD_ID :: u32 where "NT_GNU_BUILD_ID = 3"
definition SHT_PROGBITS :: u32 where "SHT_PROGBITS = 1"
definition sizeof_Elf64_Ehdr :: u64 where "sizeof_Elf64_Ehdr = 64"
definition sizeof_Elf32_Ehdr :: u64 where "sizeof_Elf32_Ehdr = 52"
definition sizeof_Elf64_Nhdr :: nat where "sizeof_Elf64_Nhdr = 12"

definition e_phoff64 :: "memory \<Rightarrow> u64 \<Rightarrow> u64" where "e_phoff64 mem elf = read_u64 mem (elf + 32)"
definition e_shoff64 :: "memory \<Rightarrow> u64 \<Rightarrow> u64" where "e_shoff64 mem elf = read_u64 mem (elf + 40)"
definition e_phentsize64 :: "memory \<Rightarrow> u64 \<Rightarrow> u16" where "e_phentsize64 mem elf = read_u16 mem (elf + 54)"
definition e_phnum64 :: "memory \<Rightarrow> u64 \<Rightarrow> u16" where "e_phnum64 mem elf = read_u16 mem (elf + 56)"
definition e_shentsize64 :: "memory \<Rightarrow> u64 \<Rightarrow> u16" where "e_shentsize64 mem elf = read_u16 mem (elf + 58)"
definition e_shnum64 :: "memory \<Rightarrow> u64 \<Rightarrow> u16" where "e_shnum64 mem elf = read_u16 mem (elf + 60)"
definition e_shstrndx64 :: "memory \<Rightarrow> u64 \<Rightarrow> u16" where "e_shstrndx64 mem elf = read_u16 mem (elf + 62)"

definition e_phoff32 :: "memory \<Rightarrow> u64 \<Rightarrow> u32" where "e_phoff32 mem elf = read_u32 mem (elf + 28)"
definition e_shoff32 :: "memory \<Rightarrow> u64 \<Rightarrow> u32" where "e_shoff32 mem elf = read_u32 mem (elf + 32)"
definition e_phentsize32 :: "memory \<Rightarrow> u64 \<Rightarrow> u16" where "e_phentsize32 mem elf = read_u16 mem (elf + 42)"
definition e_phnum32 :: "memory \<Rightarrow> u64 \<Rightarrow> u16" where "e_phnum32 mem elf = read_u16 mem (elf + 44)"
definition e_shentsize32 :: "memory \<Rightarrow> u64 \<Rightarrow> u16" where "e_shentsize32 mem elf = read_u16 mem (elf + 46)"
definition e_shnum32 :: "memory \<Rightarrow> u64 \<Rightarrow> u16" where "e_shnum32 mem elf = read_u16 mem (elf + 48)"
definition e_shstrndx32 :: "memory \<Rightarrow> u64 \<Rightarrow> u16" where "e_shstrndx32 mem elf = read_u16 mem (elf + 50)"

definition p_type64 :: "memory \<Rightarrow> u64 \<Rightarrow> u32" where "p_type64 mem h = read_u32 mem h"
definition p_offset64 :: "memory \<Rightarrow> u64 \<Rightarrow> u64" where "p_offset64 mem h = read_u64 mem (h + 8)"
definition p_filesz64 :: "memory \<Rightarrow> u64 \<Rightarrow> u64" where "p_filesz64 mem h = read_u64 mem (h + 32)"
definition p_align64 :: "memory \<Rightarrow> u64 \<Rightarrow> u64" where "p_align64 mem h = read_u64 mem (h + 48)"

definition p_type32 :: "memory \<Rightarrow> u64 \<Rightarrow> u32" where "p_type32 mem h = read_u32 mem h"
definition p_offset32 :: "memory \<Rightarrow> u64 \<Rightarrow> u32" where "p_offset32 mem h = read_u32 mem (h + 4)"
definition p_filesz32 :: "memory \<Rightarrow> u64 \<Rightarrow> u32" where "p_filesz32 mem h = read_u32 mem (h + 16)"
definition p_align32 :: "memory \<Rightarrow> u64 \<Rightarrow> u32" where "p_align32 mem h = read_u32 mem (h + 28)"

definition sh_name64 :: "memory \<Rightarrow> u64 \<Rightarrow> u32" where "sh_name64 mem h = read_u32 mem h"
definition sh_type64 :: "memory \<Rightarrow> u64 \<Rightarrow> u32" where "sh_type64 mem h = read_u32 mem (h + 4)"
definition sh_offset64 :: "memory \<Rightarrow> u64 \<Rightarrow> u64" where "sh_offset64 mem h = read_u64 mem (h + 24)"
definition sh_size64 :: "memory \<Rightarrow> u64 \<Rightarrow> u64" where "sh_size64 mem h = read_u64 mem (h + 32)"
definition sh_entsize64 :: "memory \<Rightarrow> u64 \<Rightarrow> u64" where "sh_entsize64 mem h = read_u64 mem (h + 56)"

definition sh_name32 :: "memory \<Rightarrow> u64 \<Rightarrow> u32" where "sh_name32 mem h = read_u32 mem h"
definition sh_type32 :: "memory \<Rightarrow> u64 \<Rightarrow> u32" where "sh_type32 mem h = read_u32 mem (h + 4)"
definition sh_offset32 :: "memory \<Rightarrow> u64 \<Rightarrow> u32" where "sh_offset32 mem h = read_u32 mem (h + 16)"
definition sh_size32 :: "memory \<Rightarrow> u64 \<Rightarrow> u32" where "sh_size32 mem h = read_u32 mem (h + 20)"
definition sh_entsize32 :: "memory \<Rightarrow> u64 \<Rightarrow> u32" where "sh_entsize32 mem h = read_u32 mem (h + 36)"

definition n_namesz :: "memory \<Rightarrow> u64 \<Rightarrow> u32" where "n_namesz mem note = read_u32 mem note"
definition n_descsz :: "memory \<Rightarrow> u64 \<Rightarrow> u32" where "n_descsz mem note = read_u32 mem (note + 4)"
definition n_type :: "memory \<Rightarrow> u64 \<Rightarrow> u32" where "n_type mem note = read_u32 mem (note + 8)"

text \<open>
  The term \<^verbatim>\<open>elf->e_phentsize * i\<close> multiplies two \<^verbatim>\<open>int\<close>s (the 16-bit field is
  promoted). The product is kept in 32 bits; added to a 64-bit offset it is sign-extended,
  added to a 32-bit offset it is taken as \<^verbatim>\<open>unsigned int\<close>. (A product beyond
  \<^verbatim>\<open>INT_MAX\<close> is undefined in C; the model wraps, as the compiled code does.)
\<close>

definition int_mul :: "u16 \<Rightarrow> nat \<Rightarrow> u32" where
  "int_mul entsize i = ucast entsize * of_nat i"

section \<open>ELF introspection\<close>

definition is_elf_module :: "memory \<Rightarrow> sentry_module_t \<Rightarrow> bool" where
  "is_elf_module mem module =
     (case sentry__module_get_addr module 0 EI_NIDENT of
        None \<Rightarrow> False
      | Some e_ident \<Rightarrow>
          mem e_ident = 0x7F \<and> mem (e_ident + 1) = 0x45
          \<and> mem (e_ident + 2) = 0x4C \<and> mem (e_ident + 3) = 0x46)"

text \<open>
  \<^verbatim>\<open>align\<close> and the loop of \<^verbatim>\<open>get_code_id_from_notes\<close>. The running pointer
  \<^verbatim>\<open>offset\<close> is carried as a natural number: pointer arithmetic that leaves the address
  space is undefined in C, and with it out of the way every iteration moves the pointer
  forward by at least the size of a note header, so the loop ends. The result is the pair
  of the returned pointer and of \<^verbatim>\<open>*size_out\<close>.
\<close>

definition align :: "nat \<Rightarrow> nat \<Rightarrow> nat" where
  "align alignment off =
     (let diff = off mod alignment in if diff \<noteq> 0 then off + (alignment - diff) else off)"

lemma align_ge: "off \<le> align alignment off"
  by (simp add: align_def Let_def)

function notes_loop :: "memory \<Rightarrow> nat \<Rightarrow> nat \<Rightarrow> nat \<Rightarrow> u64 \<times> u64" where
  "notes_loop mem alignment off end_n =
     (if off < end_n then
        let note = (of_nat off :: u64);
            off1 = align alignment (off + sizeof_Elf64_Nhdr + unat (n_namesz mem note))
        in if n_type mem note = NT_GNU_BUILD_ID
           then (of_nat off1, ucast (n_descsz mem note))
           else notes_loop mem alignment
                  (align alignment (off1 + unat (n_descsz mem note))) end_n
      else (0, 0))"
  by pat_completeness auto
termination
proof (relation "measure (\<lambda>(mem, alignment, off, end_n). end_n - off)")
  show "wf (measure (\<lambda>(mem, alignment, off, end_n). end_n - off))" by simp
next
  fix mem :: memory and alignment off end_n :: nat and nhdr :: u64 and off1 :: nat
  assume lt: "off < end_n"
    and o1: "off1 = align alignment (off + sizeof_Elf64_Nhdr + unat (n_namesz mem nhdr))"
  have "off + sizeof_Elf64_Nhdr + unat (n_namesz mem nhdr) \<le> off1"
    unfolding o1 by (rule align_ge)
  moreover have "off1 + unat (n_descsz mem nhdr) \<le> align alignment (off1 + unat (n_descsz mem nhdr))"
    by (rule align_ge)
  ultimately have "off < align alignment (off1 + unat (n_descsz mem nhdr))"
    by (simp add: sizeof_Elf64_Nhdr_def)
  then show "((mem, alignment, align alignment (off1 + unat (n_descsz mem nhdr)), end_n),
              (mem, alignment, off, end_n))
             \<in> measure (\<lambda>(mem, alignment, off, end_n). end_n - off)"
    using lt by simp
qed

definition get_code_id_from_notes :: "memory \<Rightarrow> u64 \<Rightarrow> u64 \<Rightarrow> u64 \<Rightarrow> u64 \<times> u64" where
  "get_code_id_from_notes mem alignment start_n end_n =
     (if alignment < 4 then notes_loop mem 4 (unat start_n) (unat end_n)
      else if alignment \<noteq> 4 \<and> alignment \<noteq> 8 then (0, 0)
      else notes_loop mem (unat alignment) (unat start_n) (unat end_n))"

text \<open>
  The two \<^verbatim>\<open>for\<close> loops over the program headers in \<^verbatim>\<open>get_code_id_from_elf\<close>; \<open>(0, 0)\<close>
  is the \<^verbatim>\<open>NULL\<close> result, reached at \<^verbatim>\<open>fail:\<close> and at the end of the loop alike.
\<close>

function phdr_loop64 :: "memory \<Rightarrow> sentry_module_t \<Rightarrow> u64 \<Rightarrow> nat \<Rightarrow> u64 \<times> u64" where
  "phdr_loop64 mem module elf i =
     (if i < unat (e_phnum64 mem elf) then
        (case sentry__module_get_addr module
                (e_phoff64 mem elf + scast (int_mul (e_phentsize64 mem elf) i))
                (ucast (e_phentsize64 mem elf)) of
           None \<Rightarrow> (0, 0)
         | Some header \<Rightarrow>
             if p_type64 mem header \<noteq> PT_NOTE then phdr_loop64 mem module elf (Suc i)
             else
               (case sentry__module_get_addr module (p_offset64 mem header)
                       (p_filesz64 mem header) of
                  None \<Rightarrow> (0, 0)
                | Some segment_addr \<Rightarrow>
                    let r = get_code_id_from_notes mem (p_align64 mem header) segment_addr
                              (segment_addr + p_filesz64 mem header)
                    in if fst r \<noteq> 0 then r else phdr_loop64 mem module elf (Suc i)))
      else (0, 0))"
  by pat_completeness auto
termination
  by (relation "measure (\<lambda>(mem, module, elf, i). unat (e_phnum64 mem elf) - i)") auto

function phdr_loop32 :: "memory \<Rightarrow> sentry_module_t \<Rightarrow> u64 \<Rightarrow> nat \<Rightarrow> u64 \<times> u64" where
  "phdr_loop32 mem module elf i =
     (if i < unat (e_phnum32 mem elf) then
        (case sentry__module_get_addr module
                (ucast (e_phoff32 mem elf + int_mul (e_phentsize32 mem elf) i))
                (ucast (e_phentsize32 mem elf)) of
           None \<Rightarrow> (0, 0)
         | Some header \<Rightarrow>
             if p_type32 mem header \<noteq> PT_NOTE then phdr_loop32 mem module elf (Suc i)
             else
               (case sentry__module_get_addr module (ucast (p_offset32 mem header))
                       (ucast (p_filesz32 mem header)) of
                  None \<Rightarrow> (0, 0)
                | Some segment_addr \<Rightarrow>
                    let r = get_code_id_from_notes mem (ucast (p_align32 mem header)) segment_addr
                              (segment_addr + ucast (p_filesz32 mem header))
                    in if fst r \<noteq> 0 then r else phdr_loop32 mem module elf (Suc i)))
      else (0, 0))"
  by pat_completeness auto
termination
  by (relation "measure (\<lambda>(mem, module, elf, i). unat (e_phnum32 mem elf) - i)") auto

definition get_code_id_from_elf :: "memory \<Rightarrow> sentry_module_t \<Rightarrow> u64 \<times> u64" where
  "get_code_id_from_elf mem module =
     (case sentry__module_get_addr module 0 EI_NIDENT of
        None \<Rightarrow> (0, 0)
      | Some e_ident \<Rightarrow>
          if mem (e_ident + EI_CLASS) = ELFCLASS64 then
            (case sentry__module_get_addr module 0 sizeof_Elf64_Ehdr of
               None \<Rightarrow> (0, 0)
             | Some elf \<Rightarrow> phdr_loop64 mem module elf 0)
          else
            (case sentry__module_get_addr module 0 sizeof_Elf32_Ehdr of
               None \<Rightarrow> (0, 0)
             | Some elf \<Rightarrow> phdr_loop32 mem module elf 0))"


text \<open>
  \<^verbatim>\<open>strcmp(name, ".text") == 0\<close>: the five characters and the terminating NUL stand at
  \<open>name\<close>.
\<close>

definition dot_text :: "u8 list" where
  "dot_text = [0x2E, 0x74, 0x65, 0x78, 0x74, 0]"

definition is_dot_text :: "memory \<Rightarrow> u64 \<Rightarrow> bool" where
  "is_dot_text mem name = (read_bytes mem name 6 = dot_text)"

text \<open>
  The section header loops of \<^verbatim>\<open>get_code_id_from_text_fallback\<close>. \<open>None\<close> is the jump
  to \<^verbatim>\<open>fail:\<close>; \<open>Some (text, text_size)\<close> gives the two locals after the loop, which
  are \<^verbatim>\<open>NULL\<close> and \<open>0\<close> when no section matched.
\<close>

function shdr_loop64 ::
  "memory \<Rightarrow> sentry_module_t \<Rightarrow> u64 \<Rightarrow> u64 \<Rightarrow> nat \<Rightarrow> (u64 \<times> u64) option" where
  "shdr_loop64 mem module elf names i =
     (if i < unat (e_shnum64 mem elf) then
        (case sentry__module_get_addr module
                (e_shoff64 mem elf + scast (int_mul (e_shentsize64 mem elf) i))
                (ucast (e_shentsize64 mem elf)) of
           None \<Rightarrow> None
         | Some header \<Rightarrow>
             if sh_type64 mem header = SHT_PROGBITS
                \<and> is_dot_text mem (names + ucast (sh_name64 mem header))
             then
               (case sentry__module_get_addr module (sh_offset64 mem header)
                       (sh_size64 mem header) of
                  None \<Rightarrow> None
                | Some text \<Rightarrow> Some (text, sh_size64 mem header))
             else shdr_loop64 mem module elf names (Suc i))
      else Some (0, 0))"
  by pat_completeness auto
termination
  by (relation "measure (\<lambda>(mem, module, elf, names, i). unat (e_shnum64 mem elf) - i)") auto

function shdr_loop32 ::
  "memory \<Rightarrow> sentry_module_t \<Rightarrow> u64 \<Rightarrow> u64 \<Rightarrow> nat \<Rightarrow> (u64 \<times> u64) option" where
  "shdr_loop32 mem module elf names i =
     (if i < unat (e_shnum32 mem elf) then
        (case sentry__module_get_addr module
                (ucast (e_shoff32 mem elf + int_mul (e_shentsize32 mem elf) i))
                (ucast (e_shentsize32 mem elf)) of
           None \<Rightarrow> None
         | Some header \<Rightarrow>
             if sh_type32 mem header = SHT_PROGBITS
                \<and> is_dot_text mem (names + ucast (sh_name32 mem header))
             then
               (case sentry__module_get_addr module (ucast (sh_offset32 mem header))
                       (ucast (sh_size32 mem header)) of
                  None \<Rightarrow> None
                | Some text \<Rightarrow> Some (text, ucast (sh_size32 mem header)))
             else shdr_loop32 mem module elf names (Suc i))
      else Some (0, 0))"
  by pat_completeness auto
termination
  by (relation "measure (\<lambda>(mem, module, elf, names, i). unat (e_shnum32 mem elf) - i)") auto

text \<open>
  The part of \<^verbatim>\<open>get_code_id_from_text_fallback\<close> that comes before the declaration of
  \<^verbatim>\<open>uuid\<close>: it finds \<^verbatim>\<open>text\<close> and \<^verbatim>\<open>text_size\<close>. The 32-bit branch asks for
  \<^verbatim>\<open>sizeof(Elf64_Ehdr)\<close> bytes of header, as the source does.
\<close>

definition text_section :: "memory \<Rightarrow> sentry_module_t \<Rightarrow> (u64 \<times> u64) option" where
  "text_section mem module =
     (case sentry__module_get_addr module 0 EI_NIDENT of
        None \<Rightarrow> None
      | Some e_ident \<Rightarrow>
          if mem (e_ident + EI_CLASS) = ELFCLASS64 then
            (case sentry__module_get_addr module 0 sizeof_Elf64_Ehdr of
               None \<Rightarrow> None
             | Some elf \<Rightarrow>
                 (case sentry__module_get_addr module
                         (e_shoff64 mem elf
                            + scast (int_mul (e_shentsize64 mem elf) (unat (e_shstrndx64 mem elf))))
                         (ucast (e_shentsize64 mem elf)) of
                    None \<Rightarrow> None
                  | Some strheader \<Rightarrow>
                      (case sentry__module_get_addr module (sh_offset64 mem strheader)
                              (sh_entsize64 mem strheader) of
                         None \<Rightarrow> None
                       | Some names \<Rightarrow> shdr_loop64 mem module elf names 0)))
          else
            (case sentry__module_get_addr module 0 sizeof_Elf64_Ehdr of
               None \<Rightarrow> None
             | Some elf \<Rightarrow>
                 (case sentry__module_get_addr module
                         (ucast (e_shoff32 mem elf
                            + int_mul (e_shentsize32 mem elf) (unat (e_shstrndx32 mem elf))))
                         (ucast (e_shentsize32 mem elf)) of
                    None \<Rightarrow> None
                  | Some strheader \<Rightarrow>
                      (case sentry__module_get_addr module (ucast (sh_offset32 mem strheader))
                              (ucast (sh_entsize32 mem strheader)) of
                         None \<Rightarrow> None
                       | Some names \<Rightarrow> shdr_loop32 mem module elf names 0))))"

text \<open>A \<^verbatim>\<open>sentry_uuid_t\<close> is its array of 16 bytes.\<close>

definition sentry_uuid_nil :: "u8 list" where
  "sentry_uuid_nil = replicate 16 0"

text \<open>One iteration of the loop \<^verbatim>\<open>uuid.bytes[i % 16] ^= text[i]\<close>, and the loop.\<close>

definition xor_step :: "memory \<Rightarrow> u64 \<Rightarrow> u8 list \<Rightarrow> nat \<Rightarrow> u8 list" where
  "xor_step mem text uuid i = uuid[i mod 16 := uuid ! (i mod 16) XOR mem (text + of_nat i)]"

definition xor_loop :: "memory \<Rightarrow> u64 \<Rightarrow> nat \<Rightarrow> u8 list" where
  "xor_loop mem text n = foldl (xor_step mem text) sentry_uuid_nil [0..<n]"

definition get_code_id_from_text_fallback :: "memory \<Rightarrow> sentry_module_t \<Rightarrow> u8 list" where
  "get_code_id_from_text_fallback mem module =
     (case text_section mem module of
        None \<Rightarrow> sentry_uuid_nil
      | Some (text, text_size) \<Rightarrow> xor_loop mem text (min (unat text_size) 4096))"

section \<open>Module descriptors\<close>

text \<open>
  Modelled from the spec: the structured-value tree of \<^verbatim>\<open>sentry_value.h\<close> is outside
  this file and is "consumed only through set field / append operations". A value is
  the constructor call that made it: \<open>Null\<close> for \<^verbatim>\<open>sentry_value_new_null\<close>, \<open>Int32\<close>
  for \<^verbatim>\<open>sentry_value_new_int32\<close>, \<open>Str\<close> for \<^verbatim>\<open>sentry_value_new_string\<close> and
  \<^verbatim>\<open>sentry__value_new_string_owned\<close>, \<open>Addr\<close> for \<^verbatim>\<open>sentry__value_new_addr\<close>,
  \<open>HexString\<close> for \<^verbatim>\<open>sentry__value_new_hexstring\<close> with the bytes it is given, \<open>Uuid\<close>
  for \<^verbatim>\<open>sentry__value_new_uuid\<close>, an object with its fields in insertion order, and a
  list with its frozen flag. Reference counts are not modelled.
\<close>

datatype sentry_value_t =
    Null
  | Int32 u32
  | Str string
  | Addr u64
  | HexString "u8 list"
  | Uuid "u8 list"
  | Object "(string \<times> sentry_value_t) list"
  | ValueList bool "sentry_value_t list"

definition sentry_value_new_object :: sentry_value_t where
  "sentry_value_new_object = Object []"

definition sentry_value_new_list :: sentry_value_t where
  "sentry_value_new_list = ValueList False []"

definition sentry_value_set_by_key :: "sentry_value_t \<Rightarrow> string \<Rightarrow> sentry_value_t \<Rightarrow> sentry_value_t" where
  "sentry_value_set_by_key v k x =
     (case v of Object kvs \<Rightarrow> Object (AList.update k x kvs) | _ \<Rightarrow> v)"

definition sentry_value_get_by_key :: "sentry_value_t \<Rightarrow> string \<Rightarrow> sentry_value_t" where
  "sentry_value_get_by_key v k =
     (case v of
        Object kvs \<Rightarrow> (case map_of kvs k of Some x \<Rightarrow> x | None \<Rightarrow> Null)
      | _ \<Rightarrow> Null)"

definition sentry_value_append :: "sentry_value_t \<Rightarrow> sentry_value_t \<Rightarrow> sentry_value_t" where
  "sentry_value_append v x =
     (case v of ValueList False items \<Rightarrow> ValueList False (items @ [x]) | _ \<Rightarrow> v)"

definition sentry_value_freeze :: "sentry_value_t \<Rightarrow> sentry_value_t" where
  "sentry_value_freeze v = (case v of ValueList _ items \<Rightarrow> ValueList True items | _ \<Rightarrow> v)"

definition sentry_value_is_null :: "sentry_value_t \<Rightarrow> bool" where
  "sentry_value_is_null v \<longleftrightarrow> v = Null"

text \<open>
  Modelled from the spec: \<^verbatim>\<open>sentry__slice_to_owned\<close> and \<^verbatim>\<open>sentry__slice_eq\<close> are
  outside this file; a slice stands for the \<open>len\<close> characters at \<open>ptr\<close>, and "module
  boundaries are detected by a change in path".
\<close>

definition slice_chars :: "sentry_slice_t \<Rightarrow> string" where
  "slice_chars s = (case ptr s of None \<Rightarrow> [] | Some cs \<Rightarrow> take (len s) cs)"

definition sentry__slice_to_owned :: "sentry_slice_t \<Rightarrow> string" where
  "sentry__slice_to_owned s = slice_chars s"

definition sentry__slice_eq :: "sentry_slice_t \<Rightarrow> sentry_slice_t \<Rightarrow> bool" where
  "sentry__slice_eq a b \<longleftrightarrow> len a = len b \<and> slice_chars a = slice_chars b"

text \<open>
  \<^verbatim>\<open>htonl\<close> and \<^verbatim>\<open>htons\<close> on a little-endian host swap the bytes of their argument.
  The casts \<^verbatim>\<open>(uint32_t *)uuid_bytes\<close> and \<^verbatim>\<open>(uint16_t *)(uuid_bytes + 4)\<close> read and
  write the bytes of the array in little-endian order.
\<close>

definition byte_of :: "'a::len word \<Rightarrow> nat \<Rightarrow> u8" where
  "byte_of x k = ucast (drop_bit (8 * k) x)"

definition htonl :: "u32 \<Rightarrow> u32" where
  "htonl x = push_bit 24 (ucast (byte_of x 0)) OR push_bit 16 (ucast (byte_of x 1))
             OR push_bit 8 (ucast (byte_of x 2)) OR ucast (byte_of x 3)"

definition htons :: "u16 \<Rightarrow> u16" where
  "htons x = push_bit 8 (ucast (byte_of x 0)) OR ucast (byte_of x 1)"

definition load_u16 :: "u8 list \<Rightarrow> nat \<Rightarrow> u16" where
  "load_u16 bs i = ucast (bs ! i) OR push_bit 8 (ucast (bs ! (i + 1)))"

definition load_u32 :: "u8 list \<Rightarrow> nat \<Rightarrow> u32" where
  "load_u32 bs i = ucast (load_u16 bs i) OR push_bit 16 (ucast (load_u16 bs (i + 2)))"

definition store_u16 :: "u8 list \<Rightarrow> nat \<Rightarrow> u16 \<Rightarrow> u8 list" where
  "store_u16 bs i w = bs[i := ucast w, i + 1 := ucast (drop_bit 8 w)]"

definition store_u32 :: "u8 list \<Rightarrow> nat \<Rightarrow> u32 \<Rightarrow> u8 list" where
  "store_u32 bs i w = store_u16 (store_u16 bs i (ucast w)) (i + 2) (ucast (drop_bit 16 w))"

text \<open>The three assignments \<^verbatim>\<open>*a = htonl(*a); *b = htons(*b); *c = htons(*c)\<close>.\<close>

definition flip_uuid :: "u8 list \<Rightarrow> u8 list" where
  "flip_uuid uuid =
     (let u1 = store_u32 uuid 0 (htonl (load_u32 uuid 0));
          u2 = store_u16 u1 4 (htons (load_u16 u1 4))
      in store_u16 u2 6 (htons (load_u16 u2 6)))"

text \<open>\<^verbatim>\<open>memcpy(uuid.bytes, code_id, MIN(code_id_size, 16))\<close> into the nil UUID.\<close>

definition memcpy_uuid :: "memory \<Rightarrow> u64 \<Rightarrow> u64 \<Rightarrow> u8 list" where
  "memcpy_uuid mem code_id code_id_size =
     (let n = min (unat code_id_size) 16
      in read_bytes mem code_id n @ drop n sentry_uuid_nil)"

definition sentry__procmaps_read_ids_from_elf ::
  "memory \<Rightarrow> sentry_value_t \<Rightarrow> sentry_module_t \<Rightarrow> sentry_value_t" where
  "sentry__procmaps_read_ids_from_elf mem val module =
     (let (code_id, code_id_size) = get_code_id_from_elf mem module;
          (val1, uuid) =
            (if code_id \<noteq> 0
             then (sentry_value_set_by_key val ''code_id''
                     (HexString (read_bytes mem code_id (unat code_id_size))),
                   memcpy_uuid mem code_id code_id_size)
             else (val, get_code_id_from_text_fallback mem module))
      in sentry_value_set_by_key val1 ''debug_id'' (Uuid (flip_uuid uuid)))"

definition sentry__procmaps_module_to_value :: "memory \<Rightarrow> sentry_module_t \<Rightarrow> sentry_value_t" where
  "sentry__procmaps_module_to_value mem module =
     (if \<not> is_elf_module mem module then Null
      else
        let mod_val = sentry_value_new_object;
            mod_val = sentry_value_set_by_key mod_val ''type'' (Str ''elf'');
            mod_val = sentry_value_set_by_key mod_val ''image_addr''
                        (Addr (addr (mappings module ! 0)));
            last_mapping = mappings module ! (num_mappings module - 1);
            mod_val = sentry_value_set_by_key mod_val ''image_size''
                        (Int32 (ucast (offset last_mapping + size_r last_mapping)));
            mod_val = sentry_value_set_by_key mod_val ''code_file''
                        (Str (sentry__slice_to_owned (file_m module)))
        in sentry__procmaps_read_ids_from_elf mem mod_val module)"

definition try_append_module ::
  "memory \<Rightarrow> sentry_value_t \<Rightarrow> sentry_module_t \<Rightarrow> sentry_value_t" where
  "try_append_module mem modules module =
     (if ptr (file_m module) = None then modules
      else
        let mod_val = sentry__procmaps_module_to_value mem module
        in if \<not> sentry_value_is_null mod_val then sentry_value_append modules mod_val
           else modules)"


section \<open>Concrete memories and modules\<close>

text \<open>
  A memory given by the bytes that are not zero. \<open>build_id_image\<close> holds, at address
  \<open>0x1000\<close>, a 64-bit ELF header with one \<^verbatim>\<open>PT_NOTE\<close> program header whose segment
  is a single GNU build-id note of 20 bytes. \<open>text_image_at base\<close> holds at \<open>base\<close> a
  64-bit ELF header without program headers and with two section headers, a
  \<^verbatim>\<open>PROGBITS\<close> section \<^verbatim>\<open>.text\<close> of 20 bytes and the section name table.
\<close>

definition mem_of :: "(u64 \<times> u8) list \<Rightarrow> memory" where
  "mem_of bytes a = (case map_of bytes a of Some b \<Rightarrow> b | None \<Rightarrow> 0)"

definition elf_magic :: "(u64 \<times> u8) list" where
  "elf_magic = [(0x1000, 0x7F), (0x1001, 0x45), (0x1002, 0x4C), (0x1003, 0x46), (0x1004, 2)]"

definition build_id_image :: memory where
  "build_id_image = mem_of (elf_magic @
     [(0x1020, 0x40), (0x1036, 0x38), (0x1038, 1),
      (0x1040, 4), (0x1048, 0x80), (0x1060, 0x24), (0x1070, 4),
      (0x1080, 4), (0x1084, 0x14), (0x1088, 3),
      (0x108C, 0x47), (0x108D, 0x4E), (0x108E, 0x55),
      (0x1090, 0x01), (0x1091, 0x02), (0x1092, 0x03), (0x1093, 0x04), (0x1094, 0x05),
      (0x1095, 0x06), (0x1096, 0x07), (0x1097, 0x08), (0x1098, 0x09), (0x1099, 0x0A),
      (0x109A, 0x0B), (0x109B, 0x0C), (0x109C, 0x0D), (0x109D, 0x0E), (0x109E, 0x0F),
      (0x109F, 0x10), (0x10A0, 0x11), (0x10A1, 0x12), (0x10A2, 0x13), (0x10A3, 0x14)])"



definition huge_module :: sentry_module_t where
  "huge_module = zero_module\<lparr>mappings :=
      [\<lparr>offset = 0, size_r = 0x1000, addr = 0x1000\<rparr>,
       \<lparr>offset = 0x100002000, size_r = 0x3000, addr = 0x2000\<rparr>,
       zero_region, zero_region, zero_region],
      num_mappings := 2\<rparr>"


definition zero_memory :: memory where
  "zero_memory = (\<lambda>a. 0)"

definition named_module :: sentry_module_t where
  "named_module = one_page_module\<lparr>file_m := \<lparr>ptr = Some ''/bin/true'', len = 9\<rparr>\<rparr>"


section \<open>Parsing a line of the memory map\<close>

text \<open>
  \<^verbatim>\<open>sentry__procmaps_parse_module_line\<close> reads its fields with
  \<^verbatim>\<open>sscanf(line, "%lx-%lx %4c %lx %hhx:%hhx %lu %n", ...)\<close>. \<^verbatim>\<open>sscanf\<close> is the C library's;
  what follows is the behaviour ISO C gives to this format string. A buffer is the list
  of its characters up to the terminating NUL.

  A white-space directive and the start of every numeric conversion skip white space,
  line feeds included. \<^verbatim>\<open>%lx\<close> and \<^verbatim>\<open>%lu\<close> take the subject sequence of \<^verbatim>\<open>strtoul\<close>: an
  optional sign, for base 16 an optional \<^verbatim>\<open>0x\<close>, and the longest run of digits, which
  must not be empty. A value that does not fit is undefined in ISO C; the model gives
  \<^verbatim>\<open>ULONG_MAX\<close> as \<^verbatim>\<open>strtoul\<close> does.
\<close>

definition isspace :: "char \<Rightarrow> bool" where
  "isspace c \<longleftrightarrow> c \<in> set [CHR '' '', CHR 0x09, CHR 0x0A, CHR 0x0B, CHR 0x0C, CHR 0x0D]"

definition skip_space :: "string \<Rightarrow> string" where
  "skip_space s = dropWhile isspace s"

definition digit_of :: "char \<Rightarrow> nat option" where
  "digit_of c =
     (let n = (of_char c :: nat)
      in if 48 \<le> n \<and> n \<le> 57 then Some (n - 48)
         else if 97 \<le> n \<and> n \<le> 102 then Some (n - 87)
         else if 65 \<le> n \<and> n \<le> 70 then Some (n - 55)
         else None)"

definition is_digit :: "nat \<Rightarrow> char \<Rightarrow> bool" where
  "is_digit base c = (case digit_of c of Some d \<Rightarrow> d < base | None \<Rightarrow> False)"

definition digit_val :: "char \<Rightarrow> nat" where
  "digit_val c = (case digit_of c of Some d \<Rightarrow> d | None \<Rightarrow> 0)"

definition digits_val :: "nat \<Rightarrow> string \<Rightarrow> nat" where
  "digits_val base ds = foldl (\<lambda>v c. v * base + digit_val c) 0 ds"

definition strtoul_value :: "bool \<Rightarrow> nat \<Rightarrow> u64" where
  "strtoul_value negative v =
     (if 2 ^ 64 \<le> v then UINT64_MAX else if negative then - of_nat v else of_nat v)"

definition scan_digits :: "nat \<Rightarrow> bool \<Rightarrow> string \<Rightarrow> (u64 \<times> string) option" where
  "scan_digits base negative s =
     (let ds = takeWhile (is_digit base) s
      in if ds = [] then None
         else Some (strtoul_value negative (digits_val base ds), dropWhile (is_digit base) s))"

definition has_0x :: "string \<Rightarrow> bool" where
  "has_0x s \<longleftrightarrow>
     (case s of c # x # r \<Rightarrow> c = CHR ''0'' \<and> (x = CHR ''x'' \<or> x = CHR ''X'') | _ \<Rightarrow> False)"

definition scan_unsigned :: "nat \<Rightarrow> string \<Rightarrow> (u64 \<times> string) option" where
  "scan_unsigned base s =
     (let s1 = skip_space s;
          negative = (case s1 of c # r \<Rightarrow> c = CHR ''-'' | [] \<Rightarrow> False);
          s2 = (case s1 of c # r \<Rightarrow> if c = CHR ''-'' \<or> c = CHR ''+'' then r else s1 | [] \<Rightarrow> s1)
      in if base = 16 \<and> has_0x s2 then scan_digits base negative (drop 2 s2)
         else scan_digits base negative s2)"

definition expect_char :: "char \<Rightarrow> string \<Rightarrow> string option" where
  "expect_char c s = (case s of x # r \<Rightarrow> if x = c then Some r else None | [] \<Rightarrow> None)"

text \<open>
  The conversions in the order of the format string. The result is \<open>None\<close> when fewer than
  seven of them succeed; otherwise it holds what was stored in \<^verbatim>\<open>start\<close>, \<^verbatim>\<open>end\<close>,
  \<^verbatim>\<open>permissions\<close> and \<^verbatim>\<open>offset\<close> and the input left after the last white-space directive,
  where \<^verbatim>\<open>%n\<close> counts. (\<^verbatim>\<open>%4c\<close> does not skip white space and needs four characters: with
  fewer left, the conversions after it meet the end of the input.)
\<close>

definition sscanf_line :: "string \<Rightarrow> ((u64 \<times> u64 \<times> string \<times> u64) \<times> string) option" where
  "sscanf_line line =
     (case scan_unsigned 16 line of None \<Rightarrow> None | Some (start_v, r1) \<Rightarrow>
      case expect_char (CHR ''-'') r1 of None \<Rightarrow> None | Some r2 \<Rightarrow>
      case scan_unsigned 16 r2 of None \<Rightarrow> None | Some (end_v, r3) \<Rightarrow>
      let r4 = skip_space r3
      in if length r4 < 4 then None
         else
           case scan_unsigned 16 (skip_space (drop 4 r4)) of None \<Rightarrow> None | Some (offset_v, r5) \<Rightarrow>
           case scan_unsigned 16 (skip_space r5) of None \<Rightarrow> None | Some (major_device, r6) \<Rightarrow>
           case expect_char (CHR '':'') r6 of None \<Rightarrow> None | Some r7 \<Rightarrow>
           case scan_unsigned 16 r7 of None \<Rightarrow> None | Some (minor_device, r8) \<Rightarrow>
           case scan_unsigned 10 (skip_space r8) of None \<Rightarrow> None | Some (inode, r9) \<Rightarrow>
           Some ((start_v, end_v, take 4 r4, offset_v), skip_space r9))"

text \<open>
  The result \<open>None\<close> is the return value 0; \<open>Some (consumed, module)\<close> is the return value
  \<open>consumed\<close> with the struct the function has filled. (When it returns 0 the struct holds
  whatever \<^verbatim>\<open>sscanf\<close> stored before it stopped; the only caller leaves its loop then.)
  The count \<^verbatim>\<open>consumed\<close> is an \<^verbatim>\<open>int\<close> in the source and a natural number here.
\<close>

definition line_feed :: char where
  "line_feed = CHR 0x0A"

definition sentry__procmaps_parse_module_line ::
  "string \<Rightarrow> (nat \<times> sentry_parsed_module_t) option" where
  "sentry__procmaps_parse_module_line line =
     (case sscanf_line line of
        None \<Rightarrow> None
      | Some ((start_v, end_v, perms, offset_v), rest) \<Rightarrow>
          let consumed = length line - length rest;
              module = \<lparr>start = start_v, end_p = end_v, offset_p = offset_v,
                         permissions = perms, file_p = \<lparr>ptr = Some rest, len = 0\<rparr>\<rparr>
          in if consumed \<noteq> 0 \<and> line ! (consumed - 1) = line_feed
             then Some (consumed, module\<lparr>file_p := \<lparr>ptr = None, len = 0\<rparr>\<rparr>)
             else if line_feed \<in> set rest
             then
               (let n = length (takeWhile (\<lambda>c. c \<noteq> line_feed) rest)
                in Some (consumed + n + 1, module\<lparr>file_p := \<lparr>ptr = Some rest, len = n\<rparr>\<rparr>))
             else
               Some (consumed + length rest,
                     module\<lparr>file_p := \<lparr>ptr = Some rest, len = length rest\<rparr>\<rparr>))"


text \<open>Shapes of input text that the statements about the parser use.\<close>

definition all_space :: "string \<Rightarrow> bool" where
  "all_space ws \<longleftrightarrow> (\<forall>c \<in> set ws. isspace c)"

definition digits :: "nat \<Rightarrow> string \<Rightarrow> bool" where
  "digits base ds \<longleftrightarrow> ds \<noteq> [] \<and> (\<forall>c \<in> set ds. is_digit base c)"

definition stops :: "nat \<Rightarrow> string \<Rightarrow> bool" where
  "stops base s \<longleftrightarrow>
     (case s of [] \<Rightarrow> True
      | c # r \<Rightarrow> \<not> is_digit base c \<and> c \<noteq> CHR ''x'' \<and> c \<noteq> CHR ''X'')"

definition no_space_first :: "string \<Rightarrow> bool" where
  "no_space_first s \<longleftrightarrow> (case s of [] \<Rightarrow> True | c # r \<Rightarrow> \<not> isspace c)"

section \<open>The parser consumes input\<close>

lemma skip_space_length: "length (skip_space s) \<le> length s"
  by (simp add: skip_space_def length_dropWhile_le)

lemma scan_digits_length:
  assumes "scan_digits base negative s = Some (v, r)"
  shows "length r < length s"
proof -
  have ne: "takeWhile (is_digit base) s \<noteq> []" and r: "r = dropWhile (is_digit base) s"
    using assms by (auto simp: scan_digits_def Let_def split: if_splits)
  have "length (takeWhile (is_digit base) s) + length (dropWhile (is_digit base) s) = length s"
    by (metis length_append takeWhile_dropWhile_id)
  then show ?thesis using ne r by (cases "takeWhile (is_digit base) s") auto
qed

lemma scan_unsigned_length:
  assumes "scan_unsigned base s = Some (v, r)"
  shows "length r < length s"
proof -
  define s1 where "s1 = skip_space s"
  define s2 where "s2 = (case s1 of c # r \<Rightarrow> if c = CHR ''-'' \<or> c = CHR ''+'' then r else s1
                          | [] \<Rightarrow> s1)"
  have 1: "length s1 \<le> length s" by (simp add: s1_def skip_space_length)
  have 2: "length s2 \<le> length s1" by (auto simp: s2_def split: list.splits)
  have "(\<exists>n. scan_digits base n (drop 2 s2) = Some (v, r))
        \<or> (\<exists>n. scan_digits base n s2 = Some (v, r))"
    using assms unfolding scan_unsigned_def s1_def [symmetric] Let_def s2_def [symmetric]
    by (auto split: if_splits)
  then have "length r < length s2"
    using scan_digits_length by fastforce
  then show ?thesis using 1 2 by simp
qed

lemma expect_char_length: "expect_char c s = Some r \<Longrightarrow> length r < length s"
  by (auto simp: expect_char_def split: list.splits if_splits)

lemma sscanf_line_shape:
  assumes "sscanf_line line = Some ((start_v, end_v, perms, offset_v), rest)"
  shows "length rest < length line" and "length perms = 4"
proof -
  from assms obtain r1 r2 r3 r5 r6 r7 r8 r9 v1 v3 v5 v6 v8 v9 where
    a: "scan_unsigned 16 line = Some (v1, r1)" and
    b: "expect_char (CHR ''-'') r1 = Some r2" and
    c: "scan_unsigned 16 r2 = Some (v3, r3)" and
    d: "\<not> length (skip_space r3) < 4" and
    e: "scan_unsigned 16 (skip_space (drop 4 (skip_space r3))) = Some (v5, r5)" and
    f: "scan_unsigned 16 (skip_space r5) = Some (v6, r6)" and
    g: "expect_char (CHR '':'') r6 = Some r7" and
    h: "scan_unsigned 16 r7 = Some (v8, r8)" and
    i: "scan_unsigned 10 (skip_space r8) = Some (v9, r9)" and
    p: "perms = take 4 (skip_space r3)" and r: "rest = skip_space r9"
    unfolding sscanf_line_def Let_def
    by (auto split: option.splits prod.splits if_splits)
  show "length perms = 4" using d p by simp
  have "length r1 < length line" using a by (rule scan_unsigned_length)
  moreover have "length r2 < length r1" using b by (rule expect_char_length)
  moreover have "length r3 < length r2" using c by (rule scan_unsigned_length)
  moreover have "length r5 < length (skip_space (drop 4 (skip_space r3)))"
    using e by (rule scan_unsigned_length)
  moreover have "length (skip_space (drop 4 (skip_space r3))) \<le> length r3"
    using skip_space_length [of "drop 4 (skip_space r3)"] skip_space_length [of r3] by simp
  moreover have "length r6 < length (skip_space r5)" using f by (rule scan_unsigned_length)
  moreover have "length r7 < length r6" using g by (rule expect_char_length)
  moreover have "length r8 < length r7" using h by (rule scan_unsigned_length)
  moreover have "length r9 < length (skip_space r8)" using i by (rule scan_unsigned_length)
  ultimately show "length rest < length line"
    using skip_space_length [of r5] skip_space_length [of r8] skip_space_length [of r9]
    unfolding r by linarith
qed

lemma parse_no_path:
  assumes "sscanf_line line = Some ((start_v, end_v, perms, offset_v), rest)"
    and "consumed = length line - length rest"
    and "consumed \<noteq> 0" and "line ! (consumed - 1) = line_feed"
  shows "sentry__procmaps_parse_module_line line =
     Some (consumed, \<lparr>start = start_v, end_p = end_v, offset_p = offset_v,
                       permissions = perms, file_p = \<lparr>ptr = None, len = 0\<rparr>\<rparr>)"
  using assms(3,4) unfolding assms(2)
  by (simp add: sentry__procmaps_parse_module_line_def assms(1))

lemma parse_path_line:
  assumes "sscanf_line line = Some ((start_v, end_v, perms, offset_v), rest)"
    and "consumed = length line - length rest"
    and "line ! (consumed - 1) \<noteq> line_feed"
    and "line_feed \<in> set rest" and "n = length (takeWhile (\<lambda>c. c \<noteq> line_feed) rest)"
  shows "sentry__procmaps_parse_module_line line =
     Some (consumed + n + 1, \<lparr>start = start_v, end_p = end_v, offset_p = offset_v,
                       permissions = perms, file_p = \<lparr>ptr = Some rest, len = n\<rparr>\<rparr>)"
  using assms(3,4) unfolding assms(2,5)
  by (simp add: sentry__procmaps_parse_module_line_def assms(1) Let_def)

lemma parse_path_end:
  assumes "sscanf_line line = Some ((start_v, end_v, perms, offset_v), rest)"
    and "consumed = length line - length rest"
    and "consumed = 0 \<or> line ! (consumed - 1) \<noteq> line_feed"
    and "line_feed \<notin> set rest"
  shows "sentry__procmaps_parse_module_line line =
     Some (consumed + length rest, \<lparr>start = start_v, end_p = end_v, offset_p = offset_v,
              permissions = perms, file_p = \<lparr>ptr = Some rest, len = length rest\<rparr>\<rparr>)"
  using assms(3,4) unfolding assms(2)
  by (auto simp add: sentry__procmaps_parse_module_line_def assms(1))

lemma takeWhile_shorter:
  "x \<in> set xs \<Longrightarrow> length (takeWhile (\<lambda>c. c \<noteq> x) xs) < length xs"
  by (induction xs) auto

lemma parse_module_line_cases:
  assumes "sentry__procmaps_parse_module_line line = Some (n, module)"
  obtains start_v end_v perms offset_v rest where
    "sscanf_line line = Some ((start_v, end_v, perms, offset_v), rest)"
    "start module = start_v" "end_p module = end_v" "permissions module = perms"
    "offset_p module = offset_v"
    "(n = length line - length rest \<and> file_p module = \<lparr>ptr = None, len = 0\<rparr>)
     \<or> (line_feed \<in> set rest
         \<and> n = length line - length rest + length (takeWhile (\<lambda>c. c \<noteq> line_feed) rest) + 1
         \<and> file_p module = \<lparr>ptr = Some rest, len = length (takeWhile (\<lambda>c. c \<noteq> line_feed) rest)\<rparr>)
     \<or> (line_feed \<notin> set rest \<and> n = length line
         \<and> file_p module = \<lparr>ptr = Some rest, len = length rest\<rparr>)"
proof -
  obtain start_v end_v perms offset_v rest
    where s: "sscanf_line line = Some ((start_v, end_v, perms, offset_v), rest)"
    using assms by (auto simp: sentry__procmaps_parse_module_line_def split: option.splits)
  have lt: "length rest < length line" using s by (rule sscanf_line_shape(1))
  define consumed where "consumed = length line - length rest"
  have c: "consumed = length line - length rest" by (simp add: consumed_def)
  show ?thesis
  proof (cases "line ! (consumed - 1) = line_feed")
    case True
    have "consumed \<noteq> 0" using lt by (simp add: consumed_def)
    from parse_no_path [OF s c this True] assms show ?thesis
      using that [OF s] c by auto
  next
    case False
    show ?thesis
    proof (cases "line_feed \<in> set rest")
      case True
      from parse_path_line [OF s c False True refl] assms show ?thesis
        using that [OF s] c True by auto
    next
      case nf: False
      have "consumed = 0 \<or> line ! (consumed - 1) \<noteq> line_feed" using False by simp
      from parse_path_end [OF s c this nf] assms show ?thesis
        using that [OF s] c nf lt by auto
    qed
  qed
qed

lemma parse_module_line_consumes:
  assumes "sentry__procmaps_parse_module_line line = Some (n, module)"
  shows "0 < n" and "n \<le> length line"
proof -
  from assms obtain start_v end_v perms offset_v rest where
    s: "sscanf_line line = Some ((start_v, end_v, perms, offset_v), rest)" and
    n: "(n = length line - length rest \<and> file_p module = \<lparr>ptr = None, len = 0\<rparr>)
     \<or> (line_feed \<in> set rest
         \<and> n = length line - length rest + length (takeWhile (\<lambda>c. c \<noteq> line_feed) rest) + 1
         \<and> file_p module = \<lparr>ptr = Some rest, len = length (takeWhile (\<lambda>c. c \<noteq> line_feed) rest)\<rparr>)
     \<or> (line_feed \<notin> set rest \<and> n = length line
         \<and> file_p module = \<lparr>ptr = Some rest, len = length rest\<rparr>)"
    by (rule parse_module_line_cases)
  have lt: "length rest < length line" using s by (rule sscanf_line_shape(1))
  show "0 < n" using n lt by auto
  show "n \<le> length line" using n lt takeWhile_shorter [of line_feed rest] by auto
qed

section \<open>Enumeration of the modules\<close>

definition LINUX_GATE :: sentry_slice_t where
  "LINUX_GATE = \<lparr>ptr = Some ''linux-gate.so'', len = 13\<rparr>"

text \<open>
  The characters at the pointer of a slice (none for the null pointer), and
  \<^verbatim>\<open>strchr\<close>, which searches the whole C string at the pointer and gives the distance
  of the first occurrence from it.
\<close>

definition ptr_chars :: "sentry_slice_t \<Rightarrow> string" where
  "ptr_chars s = (case ptr s of None \<Rightarrow> [] | Some cs \<Rightarrow> cs)"

definition strchr :: "string \<Rightarrow> char \<Rightarrow> nat option" where
  "strchr s c = (if c \<in> set s then Some (length (takeWhile (\<lambda>x. x \<noteq> c) s)) else None)"

text \<open>
  The \<^verbatim>\<open>if\<close> and \<^verbatim>\<open>else if\<close> at the head of the loop body of \<^verbatim>\<open>load_modules\<close>:
  \<open>None\<close> is \<^verbatim>\<open>continue\<close>, \<open>Some\<close> holds the parsed line as the rest of the body
  sees it. The tests that read \<^verbatim>\<open>module.file.ptr\<close> stand behind the test of
  \<^verbatim>\<open>module.file.len\<close>, so they are not reached with a null pointer.
\<close>

definition line_filter :: "u64 \<Rightarrow> sentry_parsed_module_t \<Rightarrow> sentry_parsed_module_t option" where
  "line_filter linux_vdso module =
     (if start module \<noteq> 0 \<and> start module = linux_vdso
      then Some (module\<lparr>file_p := LINUX_GATE\<rparr>)
      else if start module = 0 \<or> len (file_p module) = 0
              \<or> permissions module ! 0 \<noteq> CHR ''r''
              \<or> ptr_chars (file_p module) ! (len (file_p module) - 1) = CHR '')''
              \<or> (case strchr (ptr_chars (file_p module)) (CHR ''/'') of
                    None \<Rightarrow> True
                  | Some slash \<Rightarrow> slash > len (file_p module))
              \<or> (len (file_p module) \<ge> 5 \<and> take 5 (ptr_chars (file_p module)) = ''/dev/'')
      then None
      else Some module)"

text \<open>The rest of the loop body, for a line that was kept, and the whole body.\<close>

definition accumulate ::
  "memory \<Rightarrow> sentry_value_t \<times> sentry_module_t \<Rightarrow> sentry_parsed_module_t
     \<Rightarrow> sentry_value_t \<times> sentry_module_t" where
  "accumulate mem st module =
     (let (modules, last_module) = st;
          (modules1, last1) =
            (if len (file_m last_module) \<noteq> 0
                \<and> \<not> sentry__slice_eq (file_m last_module) (file_p module)
             then (try_append_module mem modules last_module, zero_module)
             else (modules, last_module))
      in (modules1, sentry__module_mapping_push (last1\<lparr>file_m := file_p module\<rparr>) module))"

definition load_modules_line ::
  "memory \<Rightarrow> u64 \<Rightarrow> sentry_value_t \<times> sentry_module_t \<Rightarrow> sentry_parsed_module_t
     \<Rightarrow> sentry_value_t \<times> sentry_module_t" where
  "load_modules_line mem linux_vdso st module =
     (case line_filter linux_vdso module of
        None \<Rightarrow> st
      | Some kept \<Rightarrow> accumulate mem st kept)"

text \<open>
  The loop \<^verbatim>\<open>while (true)\<close> of \<^verbatim>\<open>load_modules\<close> with the call of
  \<^verbatim>\<open>try_append_module\<close> after it. Every successful parse consumes at least one
  character, so the loop ends.
\<close>

function load_modules_loop ::
  "memory \<Rightarrow> u64 \<Rightarrow> string \<Rightarrow> sentry_value_t \<times> sentry_module_t \<Rightarrow> sentry_value_t" where
  "load_modules_loop mem linux_vdso current_line st =
     (case sentry__procmaps_parse_module_line current_line of
        None \<Rightarrow> try_append_module mem (fst st) (snd st)
      | Some (read_n, module) \<Rightarrow>
          load_modules_loop mem linux_vdso (drop read_n current_line)
            (load_modules_line mem linux_vdso st module))"
  by pat_completeness auto
termination
proof (relation "measure (\<lambda>(mem, linux_vdso, current_line, st). length current_line)")
  show "wf (measure (\<lambda>(mem, linux_vdso, current_line, st). length current_line))" by simp
next
  fix mem :: memory and linux_vdso :: u64 and current_line :: string
    and st :: "sentry_value_t \<times> sentry_module_t"
    and x2 :: "nat \<times> sentry_parsed_module_t" and read_n :: nat
    and module :: sentry_parsed_module_t
  assume "sentry__procmaps_parse_module_line current_line = Some x2"
    and "(read_n, module) = x2"
  then have p: "sentry__procmaps_parse_module_line current_line = Some (read_n, module)"
    by simp
  have "0 < read_n" and "read_n \<le> length current_line"
    using parse_module_line_consumes [OF p] by auto
  then show "((mem, linux_vdso, drop read_n current_line,
               load_modules_line mem linux_vdso st module),
              (mem, linux_vdso, current_line, st))
             \<in> measure (\<lambda>(mem, linux_vdso, current_line, st). length current_line)"
    by simp
qed

text \<open>
  The process as the module finder sees it: the contents of \<^verbatim>\<open>/proc/self/maps\<close>
  (\<open>None\<close> when the file cannot be opened or no buffer can be had for its contents,
  otherwise the characters that were read), the entries of
  \<^verbatim>\<open>/proc/self/auxv\<close> (\<open>None\<close> when it cannot be opened), and the memory.
  \<^verbatim>\<open>get_linux_vdso\<close> walks the entries up to \<^verbatim>\<open>AT_NULL\<close>.
\<close>

definition AT_NULL :: u64 where "AT_NULL = 0"
definition AT_SYSINFO_EHDR :: u64 where "AT_SYSINFO_EHDR = 33"

fun auxv_loop :: "(u64 \<times> u64) list \<Rightarrow> u64" where
  "auxv_loop [] = 0"
| "auxv_loop ((a_type, a_val) # entries) =
     (if a_type = AT_NULL then 0
      else if a_type = AT_SYSINFO_EHDR then a_val
      else auxv_loop entries)"

record process =
  proc_self_maps :: "string option"
  proc_self_auxv :: "(u64 \<times> u64) list option"
  process_memory :: memory

definition get_linux_vdso :: "process \<Rightarrow> u64" where
  "get_linux_vdso proc =
     (case proc_self_auxv proc of None \<Rightarrow> 0 | Some entries \<Rightarrow> auxv_loop entries)"

definition load_modules :: "process \<Rightarrow> sentry_value_t \<Rightarrow> sentry_value_t" where
  "load_modules proc modules =
     (case proc_self_maps proc of
        None \<Rightarrow> modules
      | Some contents \<Rightarrow>
          load_modules_loop (process_memory proc) (get_linux_vdso proc) contents
            (modules, zero_module))"

text \<open>
  The cache: the globals \<^verbatim>\<open>g_initialized\<close> and \<^verbatim>\<open>g_modules\<close>. Both functions hold
  \<^verbatim>\<open>g_mutex\<close> from their first to their last statement, so calls do not interleave and
  each is a function from the state before to the state after it.
\<close>

record module_cache =
  g_initialized :: bool
  g_modules :: sentry_value_t

definition initial_cache :: module_cache where
  "initial_cache = \<lparr>g_initialized = False, g_modules = Null\<rparr>"

definition sentry_get_modules_list :: "process \<Rightarrow> module_cache \<Rightarrow> sentry_value_t \<times> module_cache" where
  "sentry_get_modules_list proc cache =
     (let cache1 =
            (if \<not> g_initialized cache
             then \<lparr>g_initialized = True,
                    g_modules = sentry_value_freeze (load_modules proc sentry_value_new_list)\<rparr>
             else cache)
      in (g_modules cache1, cache1))"

definition sentry_clear_modulecache :: "module_cache \<Rightarrow> module_cache" where
  "sentry_clear_modulecache cache = \<lparr>g_initialized = False, g_modules = Null\<rparr>"

text \<open>A line of a memory map, and what it parses to.\<close>

definition libc_line :: string where
  "libc_line = ''7f1234560000-7f1234580000 r-xp 00000000 08:01 131073 /lib/x86_64-linux-gnu/libc.so.6''
     @ [line_feed]"

definition libc_parsed :: sentry_parsed_module_t where
  "libc_parsed = \<lparr>start = 0x7f1234560000, end_p = 0x7f1234580000, offset_p = 0,
     permissions = ''r-xp'',
     file_p = \<lparr>ptr = Some (''/lib/x86_64-linux-gnu/libc.so.6'' @ [line_feed]), len = 31\<rparr>\<rparr>"



section \<open>Properties of the address translation\<close>

lemma in_range_unat:
  fixes off sz so :: u64
  assumes "off \<le> so" "so < off + sz"
  shows "unat off \<le> unat so \<and> unat so < unat off + unat sz"
proof -
  have 1: "unat off \<le> unat so" using assms(1) by (simp add: word_le_nat_alt)
  have 2: "unat so < unat (off + sz)" using assms(2) by (simp add: word_less_nat_alt)
  have "unat (off + sz) \<le> unat off + unat sz"
    by (simp add: unat_word_ariths) 
  then show ?thesis using 1 2 by linarith
qed

lemma get_addr_loop_candidate:
  "get_addr_loop rs so sz a e = Some A \<Longrightarrow>
     A \<noteq> 0 \<and> (A = a \<or> (\<exists>r \<in> set rs. in_file_range r so \<and> A = so - offset r + addr r))"
proof (induction rs arbitrary: a e)
  case Nil
  then show ?case by simp
next
  case (Cons r rs)
  let ?a' = "if offset r \<le> so \<and> so < offset r + size_r r then so - offset r + addr r else a"
  have a': "?a' = a \<or> (in_file_range r so \<and> ?a' = so - offset r + addr r)"
    using in_range_unat [of "offset r" so "size_r r"] by (simp add: in_file_range_def)
  show ?case
  proof (cases "?a' \<noteq> 0 \<and> ?a' + sz \<le> addr r + size_r r")
    case True
    then have "A = ?a'" using Cons.prems by (auto simp add: Let_def split: if_splits)
    then show ?thesis using True a' by auto
  next
    case False
    then have "get_addr_loop rs so sz ?a' (addr r + size_r r) = Some A"
      using Cons.prems by (auto simp add: Let_def split: if_splits)
    from Cons.IH [OF this] have "A \<noteq> 0"
      and "A = ?a' \<or> (\<exists>r \<in> set rs. in_file_range r so \<and> A = so - offset r + addr r)"
      by blast+
    then show ?thesis using a' by auto
  qed
qed

lemma get_addr_loop_covered:
  assumes "get_addr_loop rs so sz a e = Some A"
    and "\<forall>r \<in> set rs. unat (addr r) + unat (size_r r) < 2 ^ 64"
    and "a \<noteq> 0 \<longrightarrow> (\<forall>x. unat a \<le> x \<and> x < unat e \<longrightarrow> mapped seen x)"
    and "unat A + unat sz < 2 ^ 64"
  shows "\<forall>x. unat A \<le> x \<and> x < unat A + unat sz \<longrightarrow> mapped (seen @ rs) x"
  using assms
proof (induction rs arbitrary: a e seen)
  case Nil
  then show ?case by simp
next
  case (Cons r rs)
  let ?e' = "addr r + size_r r"
  let ?a' = "if offset r \<le> so \<and> so < offset r + size_r r then so - offset r + addr r else a"
  have nogap: "\<not> (a \<noteq> 0 \<and> e < addr r)"
    using Cons.prems(1) by (auto split: if_splits)
  have e': "unat ?e' = unat (addr r) + unat (size_r r)"
    using Cons.prems(2) by (simp add: unat_word_ariths)
  have inv: "?a' \<noteq> 0 \<longrightarrow> (\<forall>x. unat ?a' \<le> x \<and> x < unat ?e' \<longrightarrow> mapped (seen @ [r]) x)"
  proof (cases "offset r \<le> so \<and> so < offset r + size_r r")
    case True
    then have u: "unat (offset r) \<le> unat so" "unat so < unat (offset r) + unat (size_r r)"
      using in_range_unat [of "offset r" so "size_r r"] by auto
    have d: "unat (so - offset r) = unat so - unat (offset r)"
      using True by (simp add: unat_sub)
    have "unat so - unat (offset r) + unat (addr r) < 2 ^ 64"
      using u Cons.prems(2) by auto
    then have "unat (so - offset r + addr r) = unat so - unat (offset r) + unat (addr r)"
      using d by (simp add: unat_word_ariths)
    then show ?thesis using True e' by (auto simp: mapped_def)
  next
    case False
    show ?thesis
    proof (intro impI allI)
      fix x assume a0: "?a' \<noteq> 0" and x: "unat ?a' \<le> x \<and> x < unat ?e'"
      have aa: "?a' = a" using False by auto
      then have "a \<noteq> 0" using a0 by simp
      then have le: "unat (addr r) \<le> unat e" using nogap by (simp add: word_le_nat_alt not_less)
      show "mapped (seen @ [r]) x"
      proof (cases "x < unat e")
        case True
        then have "mapped seen x" using Cons.prems(3) \<open>a \<noteq> 0\<close> x aa by auto
        then show ?thesis by (auto simp: mapped_def)
      next
        case False
        then show ?thesis using le x e' by (auto simp: mapped_def)
      qed
    qed
  qed
  show ?case
  proof (cases "?a' \<noteq> 0 \<and> ?a' + sz \<le> ?e'")
    case True
    then have A: "A = ?a'" using Cons.prems(1) nogap by (auto simp add: Let_def split: if_splits)
    have "unat (A + sz) = unat A + unat sz" using Cons.prems(4) by (simp add: unat_word_ariths)
    then have "unat A + unat sz \<le> unat ?e'" using True A by (simp add: word_le_nat_alt)
    then have "\<forall>x. unat A \<le> x \<and> x < unat A + unat sz \<longrightarrow> mapped (seen @ [r]) x"
      using inv True A by auto
    then show ?thesis by (auto simp: mapped_def)
  next
    case False
    then have rec: "get_addr_loop rs so sz ?a' ?e' = Some A"
      using Cons.prems(1) nogap by (auto simp add: Let_def split: if_splits)
    have "\<forall>x. unat A \<le> x \<and> x < unat A + unat sz \<longrightarrow> mapped ((seen @ [r]) @ rs) x"
      by (rule Cons.IH [OF rec _ inv Cons.prems(4)]) (use Cons.prems(2) in simp)
    then show ?thesis by simp
  qed
qed


text \<open>
  What the translation guarantees when no addition wraps: the result is the image of
  the requested file offset in a stored region that backs it, and every byte of the
  requested range lies in a stored region.
\<close>

lemma module_get_addr_sound:
  assumes "sentry__module_get_addr m start_offset sz = Some A"
    and "\<forall>r \<in> set (stored_regions m). unat (addr r) + unat (size_r r) < 2 ^ 64"
    and "unat A + unat sz < 2 ^ 64"
  shows "A \<noteq> 0"
    and "\<exists>r \<in> set (stored_regions m).
           in_file_range r start_offset \<and> A = start_offset - offset r + addr r"
    and "\<forall>x. unat A \<le> x \<and> x < unat A + unat sz \<longrightarrow> mapped (stored_regions m) x"
proof -
  have loop: "get_addr_loop (stored_regions m) start_offset sz 0 UINT64_MAX = Some A"
    using assms(1) by (simp add: sentry__module_get_addr_def stored_regions_def)
  from get_addr_loop_candidate [OF loop] show "A \<noteq> 0"
    and "\<exists>r \<in> set (stored_regions m).
           in_file_range r start_offset \<and> A = start_offset - offset r + addr r"
    by auto
  from get_addr_loop_covered [OF loop assms(2) _ assms(3), of "[]"]
  show "\<forall>x. unat A \<le> x \<and> x < unat A + unat sz \<longrightarrow> mapped (stored_regions m) x"
    by simp
qed

text \<open>
  C1. \<^verbatim>\<open>sentry__module_get_addr\<close> is to return an address only for a request that fits
  into the mapped regions. The sum \<^verbatim>\<open>addr + size\<close> of its final test wraps modulo
  \<open>2 ^ 64\<close>: for the module with the single region of file offset 0, size \<open>0x1000\<close> and
  address \<open>0x1000\<close>, the request for \<open>0xFFFFFFFFFFFFF000\<close> bytes at file offset \<open>0xFF0\<close>
  is answered with the address \<open>0x1FF0\<close>, although the region ends at \<open>0x2000\<close>, sixteen
  bytes further, and the request is far longer.
\<close>

theorem module_get_addr_size_wraps:
  "sentry__module_get_addr one_page_module 0xFF0 0xFFFFFFFFFFFFF000 = Some 0x1FF0
   \<and> stored_regions one_page_module = [\<lparr>offset = 0, size_r = 0x1000, addr = 0x1000\<rparr>]
   \<and> \<not> mapped (stored_regions one_page_module) (unat (0x1FF0 :: u64) + 16)
   \<and> unat (0x1FF0 :: u64) + 16 < unat (0x1FF0 :: u64) + unat (0xFFFFFFFFFFFFF000 :: u64)"
  by (simp add: sentry__module_get_addr_def one_page_module_def UINT64_MAX_def
      zero_module_def stored_regions_def mapped_def)

section \<open>Properties of the coalescing\<close>

lemma push_merge:
  "num_mappings m \<noteq> 0 \<Longrightarrow> contiguous_with (mappings m ! (num_mappings m - 1)) p \<Longrightarrow>
   sentry__module_mapping_push m p =
     m\<lparr>mappings := (mappings m)[num_mappings m - 1 :=
        (mappings m ! (num_mappings m - 1))\<lparr>size_r := size_r (mappings m ! (num_mappings m - 1)) + (end_p p - start p)\<rparr>]\<rparr>"
  by (simp add: sentry__module_mapping_push_def Let_def)

lemma push_append:
  "num_mappings m = 0 \<or> \<not> contiguous_with (mappings m ! (num_mappings m - 1)) p \<Longrightarrow>
   num_mappings m < MAX_MAPPINGS \<Longrightarrow>
   sentry__module_mapping_push m p =
     m\<lparr>mappings := (mappings m)[num_mappings m := region_of p],
       num_mappings := num_mappings m + 1\<rparr>"
  by (auto simp add: sentry__module_mapping_push_def Let_def region_of_def)

lemma push_drop:
  "num_mappings m = 0 \<or> \<not> contiguous_with (mappings m ! (num_mappings m - 1)) p \<Longrightarrow>
   \<not> num_mappings m < MAX_MAPPINGS \<Longrightarrow>
   sentry__module_mapping_push m p = m"
  by (auto simp add: sentry__module_mapping_push_def Let_def)

lemma push_ok: "module_ok m \<Longrightarrow> module_ok (sentry__module_mapping_push m p)"
  by (auto simp add: sentry__module_mapping_push_def Let_def module_ok_def)

lemma stored_merge:
  assumes "module_ok m" "num_mappings m \<noteq> 0"
    "contiguous_with (mappings m ! (num_mappings m - 1)) p"
  shows "stored_regions (sentry__module_mapping_push m p) =
     butlast (stored_regions m) @
       [(last (stored_regions m))\<lparr>size_r := size_r (last (stored_regions m)) + (end_p p - start p)\<rparr>]"
proof -
  let ?n = "num_mappings m"
  have len: "length (stored_regions m) = ?n"
    using assms(1) by (simp add: stored_regions_def module_ok_def)
  have ne: "stored_regions m \<noteq> []" using len assms(2) by auto
  have l: "last (stored_regions m) = mappings m ! (?n - 1)"
    using assms(2) len ne by (simp add: last_conv_nth) (simp add: stored_regions_def)
  have "stored_regions (sentry__module_mapping_push m p)
      = (stored_regions m)[?n - 1 := (mappings m ! (?n - 1))\<lparr>size_r := size_r (mappings m ! (?n - 1)) + (end_p p - start p)\<rparr>]"
    using assms by (simp add: push_merge stored_regions_def take_update_swap)
  also have "\<dots> = butlast (stored_regions m) @ [(mappings m ! (?n - 1))\<lparr>size_r := size_r (mappings m ! (?n - 1)) + (end_p p - start p)\<rparr>]"
    using len ne
    by (metis append_butlast_last_id length_butlast list_update_length)
  finally show ?thesis by (simp add: l)
qed

lemma stored_append:
  assumes "module_ok m" "num_mappings m = 0 \<or> \<not> contiguous_with (mappings m ! (num_mappings m - 1)) p"
    "num_mappings m < MAX_MAPPINGS"
  shows "stored_regions (sentry__module_mapping_push m p) = stored_regions m @ [region_of p]"
  using assms
  by (simp add: push_append stored_regions_def module_ok_def take_Suc_conv_app_nth)

lemma stored_last:
  "module_ok m \<Longrightarrow> num_mappings m \<noteq> 0 \<Longrightarrow> last (stored_regions m) = mappings m ! (num_mappings m - 1)"
proof -
  assume ok: "module_ok m" and n: "num_mappings m \<noteq> 0"
  have len: "length (stored_regions m) = num_mappings m"
    using ok by (simp add: stored_regions_def module_ok_def)
  then have ne: "stored_regions m \<noteq> []" using n by auto
  show ?thesis
    using n len ne by (simp add: last_conv_nth) (simp add: stored_regions_def)
qed

lemma fold_push_unmergeable:
  "unmergeable ps \<Longrightarrow>
     module_ok (foldl sentry__module_mapping_push zero_module ps)
     \<and> stored_regions (foldl sentry__module_mapping_push zero_module ps)
         = map region_of (take MAX_MAPPINGS ps)"
proof (induction ps rule: rev_induct)
  case Nil
  show ?case
    by (simp add: zero_module_def module_ok_def stored_regions_def)
next
  case (snoc x ps)
  let ?m = "foldl sentry__module_mapping_push zero_module ps"
  have u: "unmergeable ps"
    using snoc.prems unfolding unmergeable_def
    by (auto simp: nth_append split: if_splits)
  have ok: "module_ok ?m" and st: "stored_regions ?m = map region_of (take MAX_MAPPINGS ps)"
    using snoc.IH [OF u] by auto
  have n: "num_mappings ?m = min (length ps) MAX_MAPPINGS"
    using st ok by (metis length_map length_take min.commute module_ok_def stored_regions_def min_def)
  have nm: "num_mappings ?m = 0 \<or> \<not> contiguous_with (mappings ?m ! (num_mappings ?m - 1)) x"
  proof (cases "num_mappings ?m = 0")
    case True then show ?thesis by simp
  next
    case False
    then have lt: "num_mappings ?m - 1 < length ps" using n by (cases ps) auto
    have "mappings ?m ! (num_mappings ?m - 1) = stored_regions ?m ! (num_mappings ?m - 1)"
      using False by (simp add: stored_regions_def)
    also have "\<dots> = region_of (ps ! (num_mappings ?m - 1))"
    proof -
      have "num_mappings ?m \<le> length ps" "num_mappings ?m \<le> MAX_MAPPINGS"
        using n by simp_all
      then have "num_mappings ?m - 1 < length (take MAX_MAPPINGS ps)"
        using False by (simp only: length_take)
      then show ?thesis
        unfolding st by (simp only: nth_map) simp
    qed
    finally have e: "mappings ?m ! (num_mappings ?m - 1) = region_of (ps ! (num_mappings ?m - 1))" .
    have "length ps < length (ps @ [x])" by simp
    then have "\<not> contiguous_with (region_of ((ps @ [x]) ! (num_mappings ?m - 1))) ((ps @ [x]) ! length ps)"
      using snoc.prems lt unfolding unmergeable_def by blast
    then show ?thesis using e lt by (simp add: nth_append)
  qed
  show ?case
  proof (cases "num_mappings ?m < MAX_MAPPINGS")
    case True
    then have "length ps < MAX_MAPPINGS" using n by auto
    then show ?thesis
      using stored_append [OF ok nm True] push_ok [OF ok] st by simp
  next
    case False
    then have "MAX_MAPPINGS \<le> length ps" using n by auto
    then show ?thesis
      using push_drop [OF nm False] ok st by simp
  qed
qed


text \<open>
  C2. For a module that stores at least one region, \<^verbatim>\<open>sentry__module_mapping_push\<close>
  grows the size of the last stored region by the size of the fragment, and leaves its
  offset, its address and the number of stored regions as they are, when the fragment
  continues the last region both in address and in file offset. When one of the two
  equalities fails nothing is merged: the fragment becomes a new last region if fewer than
  \<open>MAX_MAPPINGS\<close> regions are stored, and the stored regions stay as they are otherwise.
\<close>

theorem mapping_push_merges_iff_contiguous:
  assumes "module_ok m" and "num_mappings m \<noteq> 0"
  shows "(contiguous_with (last (stored_regions m)) p \<longrightarrow>
            stored_regions (sentry__module_mapping_push m p) =
              butlast (stored_regions m) @
                [(last (stored_regions m))\<lparr>size_r :=
                   size_r (last (stored_regions m)) + (end_p p - start p)\<rparr>])
       \<and> (\<not> contiguous_with (last (stored_regions m)) p \<longrightarrow>
            stored_regions (sentry__module_mapping_push m p) =
              (if num_mappings m < MAX_MAPPINGS
               then stored_regions m @ [region_of p]
               else stored_regions m))"
proof -
  have l: "last (stored_regions m) = mappings m ! (num_mappings m - 1)"
    using assms by (rule stored_last)
  show ?thesis
  proof (cases "contiguous_with (mappings m ! (num_mappings m - 1)) p")
    case True
    then show ?thesis using stored_merge [OF assms True] l by simp
  next
    case False
    then have nm: "num_mappings m = 0 \<or> \<not> contiguous_with (mappings m ! (num_mappings m - 1)) p"
      by simp
    show ?thesis
    proof (cases "num_mappings m < MAX_MAPPINGS")
      case True
      then show ?thesis using stored_append [OF assms(1) nm True] False l by simp
    next
      case c: False
      then show ?thesis using push_drop [OF nm c] False l by simp
    qed
  qed
qed

theorem mapping_push_merges_iff_contiguous_witness:
  "module_ok one_page_module \<and> num_mappings one_page_module \<noteq> 0
   \<and> contiguous_with (last (stored_regions one_page_module)) (fragment 0x2000 0x5000 0x1000)
   \<and> stored_regions (sentry__module_mapping_push one_page_module (fragment 0x2000 0x5000 0x1000))
       = [\<lparr>offset = 0, size_r = 0x4000, addr = 0x1000\<rparr>]
   \<and> \<not> contiguous_with (last (stored_regions one_page_module)) (fragment 0x2000 0x5000 0x3000)
   \<and> stored_regions (sentry__module_mapping_push one_page_module (fragment 0x2000 0x5000 0x3000))
       = [\<lparr>offset = 0, size_r = 0x1000, addr = 0x1000\<rparr>,
          \<lparr>offset = 0x3000, size_r = 0x3000, addr = 0x2000\<rparr>]"
proof -
  have ok: "module_ok one_page_module"
    by (simp add: module_ok_def one_page_module_def zero_module_def MAX_MAPPINGS_def)
  have n: "num_mappings one_page_module \<noteq> 0"
    by (simp add: one_page_module_def)
  have st: "stored_regions one_page_module = [\<lparr>offset = 0, size_r = 0x1000, addr = 0x1000\<rparr>]"
    by (simp add: stored_regions_def one_page_module_def)
  have c1: "contiguous_with (last (stored_regions one_page_module)) (fragment 0x2000 0x5000 0x1000)"
    by (simp add: st contiguous_with_def fragment_def)
  have c2: "\<not> contiguous_with (last (stored_regions one_page_module)) (fragment 0x2000 0x5000 0x3000)"
    by (simp add: st contiguous_with_def fragment_def)
  have n1: "num_mappings one_page_module < MAX_MAPPINGS"
    by (simp add: one_page_module_def MAX_MAPPINGS_def)
  show ?thesis
    using mapping_push_merges_iff_contiguous [OF ok n, of "fragment 0x2000 0x5000 0x1000"]
      mapping_push_merges_iff_contiguous [OF ok n, of "fragment 0x2000 0x5000 0x3000"]
      ok n c1 c2 n1
    by (simp add: st) (simp add: fragment_def region_of_def)
qed

text \<open>
  C3. The number of stored regions never exceeds \<open>MAX_MAPPINGS = 5\<close>: a push keeps the
  bound, a push onto five stored regions of a fragment that does not continue the last of
  them returns the module as it was, and six fragments none of which continues an
  earlier one, pushed onto the empty module, leave exactly five stored regions: those of
  the first five fragments.
\<close>

theorem mapping_push_cap:
  "MAX_MAPPINGS = 5
   \<and> (module_ok m \<longrightarrow>
        module_ok (sentry__module_mapping_push m p)
        \<and> length (stored_regions (sentry__module_mapping_push m p)) \<le> 5)
   \<and> (num_mappings m = 5 \<and> \<not> contiguous_with (mappings m ! 4) p \<longrightarrow>
        sentry__module_mapping_push m p = m)
   \<and> (unmergeable ps \<and> length ps = 6 \<longrightarrow>
        num_mappings (foldl sentry__module_mapping_push zero_module ps) = 5
        \<and> stored_regions (foldl sentry__module_mapping_push zero_module ps)
            = map region_of (take 5 ps))"
proof -
  have a: "module_ok m \<longrightarrow>
        module_ok (sentry__module_mapping_push m p)
        \<and> length (stored_regions (sentry__module_mapping_push m p)) \<le> 5"
  proof
    assume "module_ok m"
    then have "module_ok (sentry__module_mapping_push m p)" by (rule push_ok)
    then show "module_ok (sentry__module_mapping_push m p)
        \<and> length (stored_regions (sentry__module_mapping_push m p)) \<le> 5"
      by (simp add: module_ok_def stored_regions_def MAX_MAPPINGS_def)
  qed
  have b: "num_mappings m = 5 \<and> \<not> contiguous_with (mappings m ! 4) p \<longrightarrow>
        sentry__module_mapping_push m p = m"
    using push_drop [of m p] by (simp add: MAX_MAPPINGS_def)
  have c: "unmergeable ps \<and> length ps = 6 \<longrightarrow>
        num_mappings (foldl sentry__module_mapping_push zero_module ps) = 5
        \<and> stored_regions (foldl sentry__module_mapping_push zero_module ps)
            = map region_of (take 5 ps)"
  proof
    assume h: "unmergeable ps \<and> length ps = 6"
    let ?m = "foldl sentry__module_mapping_push zero_module ps"
    from fold_push_unmergeable [of ps] h
    have ok: "module_ok ?m" and st: "stored_regions ?m = map region_of (take MAX_MAPPINGS ps)"
      by auto
    have "length (stored_regions ?m) = 5" using h by (simp add: st MAX_MAPPINGS_def)
    then have "num_mappings ?m = 5"
      using ok by (simp add: stored_regions_def module_ok_def MAX_MAPPINGS_def)
    then show "num_mappings ?m = 5 \<and> stored_regions ?m = map region_of (take 5 ps)"
      using st by (simp add: MAX_MAPPINGS_def)
  qed
  show ?thesis using a b c by (simp add: MAX_MAPPINGS_def)
qed

theorem mapping_push_cap_witness:
  "module_ok full_module \<and> num_mappings full_module = 5
   \<and> \<not> contiguous_with (mappings full_module ! 4) (fragment 0xB000 0xC000 0)
   \<and> sentry__module_mapping_push full_module (fragment 0xB000 0xC000 0) = full_module
   \<and> module_ok (sentry__module_mapping_push full_module (fragment 0xB000 0xC000 0))
   \<and> unmergeable six_fragments \<and> length six_fragments = 6
   \<and> num_mappings (foldl sentry__module_mapping_push zero_module six_fragments) = 5
   \<and> stored_regions (foldl sentry__module_mapping_push zero_module six_fragments)
       = map region_of (take 5 six_fragments)"
proof -
  have ok: "module_ok full_module"
    by code_simp
  have n: "num_mappings full_module = 5"
    by code_simp
  have nc: "\<not> contiguous_with (mappings full_module ! 4) (fragment 0xB000 0xC000 0)"
    by code_simp
  have u: "unmergeable six_fragments"
    by (simp add: unmergeable_def six_fragments_def fragment_def contiguous_with_def
        region_of_def All_less_Suc)
  have l: "length six_fragments = 6"
    by (simp add: six_fragments_def)
  show ?thesis
    using mapping_push_cap [of full_module "fragment 0xB000 0xC000 0" six_fragments]
      ok n nc u l
    by simp
qed


section \<open>Properties of the identifiers\<close>

lemma htons_bytes:
  fixes b0 b1 :: u8
  defines "w \<equiv> htons (ucast b0 OR push_bit 8 (ucast b1))"
  shows "(ucast w :: u8) = b1" and "(ucast (drop_bit 8 w) :: u8) = b0"
  unfolding w_def
  by (rule bit_word_eqI; auto simp: bit_simps htons_def byte_of_def dest: bit_imp_le_length)+

lemma htonl_bytes:
  fixes b0 b1 b2 b3 :: u8
  defines "w \<equiv> htonl (ucast (ucast b0 OR push_bit 8 (ucast b1) :: u16)
                 OR push_bit 16 (ucast (ucast b2 OR push_bit 8 (ucast b3) :: u16)))"
  shows "(ucast (ucast w :: u16) :: u8) = b3"
    and "(ucast (drop_bit 8 (ucast w :: u16)) :: u8) = b2"
    and "(ucast (ucast (drop_bit 16 w) :: u16) :: u8) = b1"
    and "(ucast (drop_bit 8 (ucast (drop_bit 16 w) :: u16)) :: u8) = b0"
  unfolding w_def
  by (rule bit_word_eqI; auto simp: bit_simps htonl_def byte_of_def dest: bit_imp_le_length)+

lemma flip_uuid_explicit:
  "flip_uuid [b0, b1, b2, b3, b4, b5, b6, b7, b8, b9, b10, b11, b12, b13, b14, b15]
     = [b3, b2, b1, b0, b5, b4, b7, b6, b8, b9, b10, b11, b12, b13, b14, b15]"
  by (simp add: flip_uuid_def store_u32_def store_u16_def load_u32_def load_u16_def
      htons_bytes htonl_bytes Let_def)

lemma flip_uuid_16:
  assumes "length bs = 16"
  shows "flip_uuid bs = [bs ! 3, bs ! 2, bs ! 1, bs ! 0, bs ! 5, bs ! 4, bs ! 7, bs ! 6] @ drop 8 bs"
proof -
  obtain b0 b1 b2 b3 b4 b5 b6 b7 b8 b9 b10 b11 b12 b13 b14 b15
    where bs: "bs = [b0, b1, b2, b3, b4, b5, b6, b7, b8, b9, b10, b11, b12, b13, b14, b15]"
    using assms by (auto simp: eval_nat_numeral length_Suc_conv)
  show ?thesis unfolding bs flip_uuid_explicit by simp
qed

lemma length_read_bytes: "length (read_bytes mem p n) = n"
  by (simp add: read_bytes_def)

lemma read_bytes_take: "read_bytes mem p (min n k) = take k (read_bytes mem p n)"
proof (cases "k \<le> n")
  case True
  then show ?thesis by (simp add: read_bytes_def take_map min.absorb2)
next
  case False
  then show ?thesis by (simp add: read_bytes_def take_map min.absorb1)
qed

lemma memcpy_uuid_padded:
  "memcpy_uuid mem code_id code_id_size
     = take 16 (read_bytes mem code_id (unat code_id_size) @ replicate 16 0)"
proof (cases "unat code_id_size \<le> 16")
  case True
  then have m: "min (unat code_id_size) 16 = unat code_id_size" by simp
  show ?thesis using True
    by (simp add: memcpy_uuid_def Let_def m sentry_uuid_nil_def length_read_bytes)
next
  case False
  then have m: "min (unat code_id_size) 16 = 16" by simp
  show ?thesis using False
    by (simp add: memcpy_uuid_def Let_def m sentry_uuid_nil_def length_read_bytes)
       (simp add: read_bytes_def take_map)
qed

lemma length_memcpy_uuid: "length (memcpy_uuid mem p n) = 16"
  by (simp add: memcpy_uuid_padded length_read_bytes)


lemma get_by_key_update:
  "sentry_value_get_by_key (Object (AList.update k x kvs)) k'
     = (if k' = k then x else sentry_value_get_by_key (Object kvs) k')"
  by (simp add: sentry_value_get_by_key_def update_conv')

lemma set_by_key_Object:
  "sentry_value_set_by_key (Object kvs) k x = Object (AList.update k x kvs)"
  by (simp add: sentry_value_set_by_key_def)

lemma read_ids_code_id:
  assumes "get_code_id_from_elf mem module = (code_id, code_id_size)" and "code_id \<noteq> 0"
  shows "sentry__procmaps_read_ids_from_elf mem (Object kvs) module =
     sentry_value_set_by_key
       (sentry_value_set_by_key (Object kvs) ''code_id''
          (HexString (read_bytes mem code_id (unat code_id_size))))
       ''debug_id'' (Uuid (flip_uuid (memcpy_uuid mem code_id code_id_size)))"
  using assms by (simp add: sentry__procmaps_read_ids_from_elf_def)

lemma read_ids_fallback:
  assumes "fst (get_code_id_from_elf mem module) = 0"
  shows "sentry__procmaps_read_ids_from_elf mem (Object kvs) module =
     sentry_value_set_by_key (Object kvs) ''debug_id''
       (Uuid (flip_uuid (get_code_id_from_text_fallback mem module)))"
  using assms
  by (cases "get_code_id_from_elf mem module") (simp add: sentry__procmaps_read_ids_from_elf_def)









text \<open>
  C6. When a code id was extracted (\<^verbatim>\<open>get_code_id_from_elf\<close> returned a pointer that is
  not null, with its size), the \<^verbatim>\<open>debug_id\<close> set by
  \<^verbatim>\<open>sentry__procmaps_read_ids_from_elf\<close> is made of the first 16 bytes \<open>b\<close> of the code
  id, padded with zeros when it is shorter and cut when it is longer: bytes 0 to 3 in
  reverse order, bytes 4, 5 swapped, bytes 6, 7 swapped, bytes 8 to 15 as they are. The
  \<^verbatim>\<open>code_id\<close> is the hex string of all bytes of the code id, none changed.
\<close>

theorem debug_id_from_code_id:
  assumes "get_code_id_from_elf mem module = (code_id, code_id_size)" and "code_id \<noteq> 0"
  shows "let val = sentry__procmaps_read_ids_from_elf mem (Object kvs) module;
             code_id_bytes = read_bytes mem code_id (unat code_id_size);
             b = take 16 (code_id_bytes @ replicate 16 0)
         in sentry_value_get_by_key val ''debug_id''
              = Uuid ([b ! 3, b ! 2, b ! 1, b ! 0, b ! 5, b ! 4, b ! 7, b ! 6] @ drop 8 b)
            \<and> sentry_value_get_by_key val ''code_id'' = HexString code_id_bytes
            \<and> length code_id_bytes = unat code_id_size"
proof -
  define b where "b = take 16 (read_bytes mem code_id (unat code_id_size) @ replicate 16 0)"
  have m: "memcpy_uuid mem code_id code_id_size = b"
    by (simp only: memcpy_uuid_padded b_def)
  have "length b = 16" using length_memcpy_uuid [of mem code_id code_id_size] m by simp
  then have f: "flip_uuid b = [b ! 3, b ! 2, b ! 1, b ! 0, b ! 5, b ! 4, b ! 7, b ! 6] @ drop 8 b"
    by (rule flip_uuid_16)
  have 1: "sentry_value_get_by_key (sentry__procmaps_read_ids_from_elf mem (Object kvs) module)
             ''debug_id'' = Uuid (flip_uuid b)"
    by (simp add: read_ids_code_id [OF assms] set_by_key_Object get_by_key_update m)
  have 2: "sentry_value_get_by_key (sentry__procmaps_read_ids_from_elf mem (Object kvs) module)
             ''code_id'' = HexString (read_bytes mem code_id (unat code_id_size))"
    by (simp add: read_ids_code_id [OF assms] set_by_key_Object get_by_key_update)
  show ?thesis
    unfolding Let_def b_def [symmetric] using 1 2 f by (simp only: length_read_bytes)
qed


theorem debug_id_from_code_id_witness:
  "get_code_id_from_elf build_id_image one_page_module = (0x1090, 0x14) \<and> (0x1090 :: u64) \<noteq> 0
   \<and> sentry_value_get_by_key
        (sentry__procmaps_read_ids_from_elf build_id_image (Object []) one_page_module)
        ''debug_id''
       = Uuid [4, 3, 2, 1, 6, 5, 8, 7, 9, 10, 11, 12, 13, 14, 15, 16]
   \<and> sentry_value_get_by_key
        (sentry__procmaps_read_ids_from_elf build_id_image (Object []) one_page_module)
        ''code_id''
       = HexString [1, 2, 3, 4, 5, 6, 7, 8, 9, 10, 11, 12, 13, 14, 15, 16, 17, 18, 19, 20]"
proof -
  have h: "get_code_id_from_elf build_id_image one_page_module = (0x1090, 0x14)"
    by code_simp
  have n: "(0x1090 :: u64) \<noteq> 0" by simp
  have rb: "read_bytes build_id_image 0x1090 20
      = [1, 2, 3, 4, 5, 6, 7, 8, 9, 10, 11, 12, 13, 14, 15, 16, 17, 18, 19, 20]"
    by code_simp
  have u: "unat (0x14 :: u64) = 20" by simp
  show ?thesis
    using debug_id_from_code_id [OF h n, of "[]"] h
    unfolding Let_def u rb by simp
qed




section \<open>Properties of the descriptors\<close>

lemma get_addr_Some_stored:
  "sentry__module_get_addr module start_offset sz = Some A \<Longrightarrow> stored_regions module \<noteq> []"
  by (cases "stored_regions module") (auto simp: sentry__module_get_addr_def stored_regions_def)

lemma read_ids_other_key:
  assumes "k \<noteq> ''code_id''" and "k \<noteq> ''debug_id''"
  shows "sentry_value_get_by_key (sentry__procmaps_read_ids_from_elf mem (Object kvs) module) k
     = sentry_value_get_by_key (Object kvs) k"
proof (cases "get_code_id_from_elf mem module")
  case (Pair code_id code_id_size)
  show ?thesis
  proof (cases "code_id = 0")
    case True
    then have "fst (get_code_id_from_elf mem module) = 0" using Pair by simp
    then show ?thesis using assms
      by (simp add: read_ids_fallback set_by_key_Object get_by_key_update)
  next
    case False
    then show ?thesis using assms
      by (simp add: read_ids_code_id [OF Pair False] set_by_key_Object get_by_key_update)
  qed
qed

lemma module_to_value_Null:
  "\<not> is_elf_module mem module \<Longrightarrow> sentry__procmaps_module_to_value mem module = Null"
  by (simp add: sentry__procmaps_module_to_value_def)

text \<open>
  C8. A module whose bytes at file offset 0 cannot be translated, or whose first four bytes
  are not \<open>0x7F\<close>, \<open>E\<close>, \<open>L\<close>, \<open>F\<close>, is converted to the null value, and
  \<^verbatim>\<open>try_append_module\<close> returns the list of modules as it was.
\<close>

theorem non_elf_module_dropped:
  assumes "sentry__module_get_addr module 0 EI_NIDENT = None
           \<or> (\<exists>e_ident. sentry__module_get_addr module 0 EI_NIDENT = Some e_ident
                 \<and> read_bytes mem e_ident 4 \<noteq> [0x7F, 0x45, 0x4C, 0x46])"
  shows "sentry__procmaps_module_to_value mem module = Null
         \<and> try_append_module mem modules module = modules"
proof -
  have "\<not> is_elf_module mem module"
    using assms
    by (auto simp: is_elf_module_def read_bytes_def eval_nat_numeral upt_rec [of 0])
  then show ?thesis
    by (simp add: module_to_value_Null try_append_module_def sentry_value_is_null_def)
qed


theorem non_elf_module_dropped_witness:
  "sentry__module_get_addr named_module 0 EI_NIDENT = Some 0x1000
   \<and> read_bytes zero_memory 0x1000 4 \<noteq> [0x7F, 0x45, 0x4C, 0x46]
   \<and> ptr (file_m named_module) \<noteq> None
   \<and> sentry__procmaps_module_to_value zero_memory named_module = Null
   \<and> try_append_module zero_memory sentry_value_new_list named_module = sentry_value_new_list"
proof -
  have a: "sentry__module_get_addr named_module 0 EI_NIDENT = Some 0x1000"
    by code_simp
  have b: "read_bytes zero_memory 0x1000 4 \<noteq> [0x7F, 0x45, 0x4C, 0x46]"
    by code_simp
  have c: "ptr (file_m named_module) \<noteq> None"
    by (simp add: named_module_def)
  have "sentry__module_get_addr named_module 0 EI_NIDENT = None
           \<or> (\<exists>e_ident. sentry__module_get_addr named_module 0 EI_NIDENT = Some e_ident
                 \<and> read_bytes zero_memory e_ident 4 \<noteq> [0x7F, 0x45, 0x4C, 0x46])"
    using a b by simp
  from non_elf_module_dropped [OF this, of sentry_value_new_list] a b c
  show ?thesis by simp
qed

text \<open>
  C10. In the descriptor of a module, \<^verbatim>\<open>image_addr\<close> is the address of the first stored
  region, and \<^verbatim>\<open>image_size\<close> is the file offset of the last stored region plus its
  size, converted to 32 bits: the 64-bit sum modulo \<open>2 ^ 32\<close>, read as a signed number
  in two's complement.
\<close>

theorem image_addr_and_size:
  assumes "is_elf_module mem module" and "module_ok module"
  shows "sentry_value_get_by_key (sentry__procmaps_module_to_value mem module) ''image_addr''
           = Addr (addr (hd (stored_regions module)))
       \<and> sentry_value_get_by_key (sentry__procmaps_module_to_value mem module) ''image_size''
           = Int32 (ucast (offset (last (stored_regions module))
                           + size_r (last (stored_regions module))))
       \<and> uint (ucast (offset (last (stored_regions module))
                      + size_r (last (stored_regions module))) :: u32)
           = uint (offset (last (stored_regions module))
                   + size_r (last (stored_regions module))) mod 2 ^ 32
       \<and> sint (ucast (offset (last (stored_regions module))
                      + size_r (last (stored_regions module))) :: u32)
           = signed_take_bit 31 (uint (offset (last (stored_regions module))
                   + size_r (last (stored_regions module))))"
proof -
  obtain e where "sentry__module_get_addr module 0 EI_NIDENT = Some e"
    using assms(1) by (auto simp: is_elf_module_def split: option.splits)
  then have ne: "stored_regions module \<noteq> []" by (rule get_addr_Some_stored)
  then have n: "num_mappings module \<noteq> 0" by (auto simp: stored_regions_def)
  have h: "hd (stored_regions module) = mappings module ! 0"
    using ne n by (simp add: hd_conv_nth) (simp add: stored_regions_def)
  have l: "last (stored_regions module) = mappings module ! (num_mappings module - 1)"
    using assms(2) n by (rule stored_last)
  have 1: "sentry_value_get_by_key (sentry__procmaps_module_to_value mem module) ''image_addr''
           = Addr (addr (mappings module ! 0))"
    using assms(1)
    by (simp add: sentry__procmaps_module_to_value_def Let_def sentry_value_new_object_def
        set_by_key_Object read_ids_other_key)
       (simp add: sentry_value_get_by_key_def)
  have 2: "sentry_value_get_by_key (sentry__procmaps_module_to_value mem module) ''image_size''
           = Int32 (ucast (offset (mappings module ! (num_mappings module - 1))
                           + size_r (mappings module ! (num_mappings module - 1))))"
    using assms(1)
    by (simp add: sentry__procmaps_module_to_value_def Let_def sentry_value_new_object_def
        set_by_key_Object read_ids_other_key)
       (simp add: sentry_value_get_by_key_def)
  have 3: "uint (ucast w :: u32) = uint w mod 2 ^ 32" for w :: u64
    by (simp add: unsigned_ucast_eq take_bit_eq_mod)
  have 4: "sint (ucast w :: u32) = signed_take_bit 31 (uint w)" for w :: u64
    by (simp add: sint_uint unsigned_ucast_eq signed_take_bit_take_bit)
  show ?thesis using 1 2 3 4 h l by simp
qed

theorem image_addr_and_size_witness:
  "is_elf_module build_id_image huge_module \<and> module_ok huge_module
   \<and> sentry_value_get_by_key (sentry__procmaps_module_to_value build_id_image huge_module)
        ''image_addr'' = Addr 0x1000
   \<and> sentry_value_get_by_key (sentry__procmaps_module_to_value build_id_image huge_module)
        ''image_size'' = Int32 0x5000"
proof -
  have a: "is_elf_module build_id_image huge_module" by code_simp
  have b: "module_ok huge_module" by code_simp
  have c: "stored_regions huge_module = [\<lparr>offset = 0, size_r = 0x1000, addr = 0x1000\<rparr>,
       \<lparr>offset = 0x100002000, size_r = 0x3000, addr = 0x2000\<rparr>]"
    by code_simp
  show ?thesis using image_addr_and_size [OF a b] a b by (simp add: c)
qed



section \<open>Properties of the parser\<close>

lemma digit_of_cases:
  "digit_of c = Some d \<Longrightarrow>
     (48 \<le> (of_char c :: nat) \<and> (of_char c :: nat) \<le> 57)
     \<or> (97 \<le> (of_char c :: nat) \<and> (of_char c :: nat) \<le> 102)
     \<or> (65 \<le> (of_char c :: nat) \<and> (of_char c :: nat) \<le> 70)"
  by (auto simp: digit_of_def Let_def split: if_splits)

lemma is_digit_code: "is_digit base c \<Longrightarrow> \<exists>d. digit_of c = Some d"
  by (auto simp: is_digit_def split: option.splits)

lemma digit_not_special:
  assumes "is_digit base c"
  shows "\<not> isspace c" and "c \<noteq> CHR ''x''" and "c \<noteq> CHR ''X''"
    and "c \<noteq> CHR ''-''" and "c \<noteq> CHR ''+''"
proof -
  obtain d where "digit_of c = Some d" using assms is_digit_code by blast
  note r = digit_of_cases [OF this]
  show "\<not> isspace c" using r by (auto simp: isspace_def)
  show "c \<noteq> CHR ''x''" using r by auto
  show "c \<noteq> CHR ''X''" using r by auto
  show "c \<noteq> CHR ''-''" using r by auto
  show "c \<noteq> CHR ''+''" using r by auto
qed

lemma space_stops: "isspace c \<Longrightarrow> stops base (c # r)"
  using digit_not_special(1) [of base c] by (auto simp: stops_def isspace_def)

lemma skip_space_append: "all_space ws \<Longrightarrow> skip_space (ws @ s) = skip_space s"
  by (simp add: skip_space_def all_space_def dropWhile_append2)

lemma skip_space_id: "no_space_first s \<Longrightarrow> skip_space s = s"
  by (cases s) (simp_all add: skip_space_def no_space_first_def)

lemma digits_no_space_first: "digits base ds \<Longrightarrow> no_space_first (ds @ r)"
  using digit_not_special(1) by (cases ds) (auto simp: digits_def no_space_first_def)

lemma takeWhile_digits:
  assumes "digits base ds" and "stops base r"
  shows "takeWhile (is_digit base) (ds @ r) = ds" and "dropWhile (is_digit base) (ds @ r) = r"
proof -
  have a: "\<And>c. c \<in> set ds \<Longrightarrow> is_digit base c" using assms(1) by (simp add: digits_def)
  have t: "takeWhile (is_digit base) r = []" and d: "dropWhile (is_digit base) r = r"
    using assms(2) by (cases r; simp add: stops_def)+
  show "takeWhile (is_digit base) (ds @ r) = ds"
    using a by (simp add: takeWhile_append2 t)
  show "dropWhile (is_digit base) (ds @ r) = r"
    using a by (simp add: dropWhile_append2 d)
qed

lemma scan_digits_append:
  assumes "digits base ds" and "stops base r"
  shows "scan_digits base negative (ds @ r)
     = Some (strtoul_value negative (digits_val base ds), r)"
  using takeWhile_digits [OF assms] assms(1)
  by (simp add: scan_digits_def Let_def digits_def)

lemma no_0x:
  assumes "digits base ds" and "stops base r"
  shows "\<not> has_0x (ds @ r)"
proof (cases ds)
  case Nil
  then show ?thesis using assms(1) by (simp add: digits_def)
next
  case (Cons d ds')
  show ?thesis
  proof (cases ds')
    case Nil
    then show ?thesis using Cons assms(2)
      by (cases r) (auto simp: has_0x_def stops_def)
  next
    case (Cons e ds'')
    then have "is_digit base e" using \<open>ds = d # ds'\<close> assms(1) by (simp add: digits_def)
    from digit_not_special(2,3) [OF this] show ?thesis
      using Cons \<open>ds = d # ds'\<close> by (simp add: has_0x_def)
  qed
qed

lemma scan_unsigned_append:
  assumes "all_space ws" and "digits base ds" and "stops base r"
  shows "scan_unsigned base (ws @ ds @ r) = Some (strtoul_value False (digits_val base ds), r)"
proof -
  have s1: "skip_space (ws @ ds @ r) = ds @ r"
    using assms(1,2) by (simp add: skip_space_append skip_space_id digits_no_space_first)
  obtain d ds' where ds: "ds = d # ds'" using assms(2) by (cases ds) (auto simp: digits_def)
  then have "is_digit base d" using assms(2) by (simp add: digits_def)
  from digit_not_special(4,5) [OF this] have sign: "d \<noteq> CHR ''-''" "d \<noteq> CHR ''+''" .
  have x: "\<not> has_0x (ds @ r)" using assms(2,3) by (rule no_0x)
  have "scan_unsigned base (ws @ ds @ r) = scan_digits base False (ds @ r)"
    unfolding scan_unsigned_def s1 using sign x by (simp add: ds Let_def)
  then show ?thesis using scan_digits_append [OF assms(2,3)] by simp
qed

lemma digit_val_less: "is_digit base c \<Longrightarrow> digit_val c < base"
  by (auto simp: is_digit_def digit_val_def split: option.splits)

lemma digits_val_snoc: "digits_val base (ds @ [c]) = digits_val base ds * base + digit_val c"
  by (simp add: digits_val_def)

lemma digits_val_less:
  "(\<forall>c \<in> set ds. is_digit base c) \<Longrightarrow> digits_val base ds < base ^ length ds"
proof (induction ds rule: rev_induct)
  case Nil
  then show ?case by (simp add: digits_val_def)
next
  case (snoc c ds)
  then have a: "digits_val base ds < base ^ length ds" and b: "digit_val c < base"
    by (auto intro: digit_val_less)
  have "digits_val base ds * base + digit_val c < (digits_val base ds + 1) * base"
    using b by simp
  also have "\<dots> \<le> base ^ length ds * base"
    using a by (intro mult_le_mono1) simp
  finally show ?case by (simp add: digits_val_snoc mult.commute)
qed

lemma hex_value_fits:
  assumes "digits 16 ds" and "length ds \<le> 16"
  shows "strtoul_value False (digits_val 16 ds) = of_nat (digits_val 16 ds)"
proof -
  have "digits_val 16 ds < 16 ^ length ds"
    using assms(1) by (intro digits_val_less) (simp add: digits_def)
  also have "(16::nat) ^ length ds \<le> 16 ^ 16"
    using assms(2) by (intro power_increasing) simp_all
  finally have "digits_val 16 ds < 2 ^ 64" by simp
  then show ?thesis by (simp add: strtoul_value_def)
qed

lemma not_digit_special: "\<not> is_digit base (CHR ''-'')" "\<not> is_digit base (CHR '':'')"
  using digit_not_special(4) [of base "CHR ''-''"]
  by (auto simp: is_digit_def digit_of_def split: option.splits)

lemma stops_special: "stops base (CHR ''-'' # r)" "stops base (CHR '':'' # r)"
  by (simp_all add: stops_def not_digit_special)

lemma stops_space: "all_space ws \<Longrightarrow> ws \<noteq> [] \<Longrightarrow> stops base (ws @ r)"
  by (cases ws) (auto simp: all_space_def intro: space_stops)

lemma scan_unsigned_digits:
  "digits base ds \<Longrightarrow> stops base r \<Longrightarrow>
   scan_unsigned base (ds @ r) = Some (strtoul_value False (digits_val base ds), r)"
  using scan_unsigned_append [of "[]" base ds r] by (simp add: all_space_def)

lemma skip_space_digits:
  "all_space ws \<Longrightarrow> digits base ds \<Longrightarrow> skip_space (ws @ ds @ r) = ds @ r"
  by (simp add: skip_space_append skip_space_id digits_no_space_first)

lemma sscanf_line_fields:
  assumes ws0: "all_space ws0" and sd: "digits 16 sd"
    and ws1: "all_space ws1" and ed: "digits 16 ed"
    and ws2: "all_space ws2" "ws2 \<noteq> []"
    and perms: "length perms = 4" "no_space_first perms"
    and ws3: "all_space ws3" and od: "digits 16 od"
    and ws4: "all_space ws4" "ws4 \<noteq> []" and mj: "digits 16 mj"
    and ws5: "all_space ws5" and mn: "digits 16 mn"
    and ws6: "all_space ws6" "ws6 \<noteq> []" and ino: "digits 10 ino"
    and tail: "stops 10 tail"
  shows "sscanf_line (ws0 @ sd @ CHR ''-'' # ws1 @ ed @ ws2 @ perms @ ws3 @ od @ ws4 @ mj
            @ CHR '':'' # ws5 @ mn @ ws6 @ ino @ tail)
     = Some ((strtoul_value False (digits_val 16 sd), strtoul_value False (digits_val 16 ed),
              perms, strtoul_value False (digits_val 16 od)), skip_space tail)"
proof -
  define r8 where "r8 = ws6 @ ino @ tail"
  define r7 where "r7 = ws5 @ mn @ r8"
  define r6 where "r6 = CHR '':'' # r7"
  define r5 where "r5 = ws4 @ mj @ r6"
  define r45 where "r45 = ws3 @ od @ r5"
  define r4 where "r4 = perms @ r45"
  define r3 where "r3 = ws2 @ r4"
  define r2 where "r2 = ws1 @ ed @ r3"
  define r1 where "r1 = CHR ''-'' # r2"
  have line: "ws0 @ sd @ CHR ''-'' # ws1 @ ed @ ws2 @ perms @ ws3 @ od @ ws4 @ mj
            @ CHR '':'' # ws5 @ mn @ ws6 @ ino @ tail = ws0 @ sd @ r1"
    by (simp add: r1_def r2_def r3_def r4_def r45_def r5_def r6_def r7_def r8_def)
  have a: "scan_unsigned 16 (ws0 @ sd @ r1) = Some (strtoul_value False (digits_val 16 sd), r1)"
    unfolding r1_def by (rule scan_unsigned_append [OF ws0 sd stops_special(1)])
  have b: "expect_char (CHR ''-'') r1 = Some r2"
    by (simp add: expect_char_def r1_def)
  have c: "scan_unsigned 16 r2 = Some (strtoul_value False (digits_val 16 ed), r3)"
    unfolding r2_def r3_def by (rule scan_unsigned_append [OF ws1 ed stops_space [OF ws2]])
  have d: "skip_space r3 = r4"
  proof -
    obtain p ps where "perms = p # ps" using perms(1) by (cases perms) auto
    then have "no_space_first (perms @ r45)" using perms(2) by (simp add: no_space_first_def)
    then show ?thesis
      unfolding r3_def r4_def using ws2(1) by (simp add: skip_space_append skip_space_id)
  qed
  have e: "\<not> length r4 < 4" "take 4 r4 = perms" "drop 4 r4 = r45"
    using perms(1) by (simp_all add: r4_def)
  have f: "skip_space r45 = od @ r5"
    unfolding r45_def by (rule skip_space_digits [OF ws3 od])
  have g: "scan_unsigned 16 (od @ r5) = Some (strtoul_value False (digits_val 16 od), r5)"
    unfolding r5_def by (rule scan_unsigned_digits [OF od stops_space [OF ws4]])
  have h: "skip_space r5 = mj @ r6"
    unfolding r5_def by (rule skip_space_digits [OF ws4(1) mj])
  have i: "scan_unsigned 16 (mj @ r6) = Some (strtoul_value False (digits_val 16 mj), r6)"
    unfolding r6_def by (rule scan_unsigned_digits [OF mj stops_special(2)])
  have j: "expect_char (CHR '':'') r6 = Some r7"
    by (simp add: expect_char_def r6_def)
  have k: "scan_unsigned 16 r7 = Some (strtoul_value False (digits_val 16 mn), r8)"
    unfolding r7_def r8_def by (rule scan_unsigned_append [OF ws5 mn stops_space [OF ws6]])
  have l: "skip_space r8 = ino @ tail"
    unfolding r8_def by (rule skip_space_digits [OF ws6(1) ino])
  have m: "scan_unsigned 10 (ino @ tail) = Some (strtoul_value False (digits_val 10 ino), tail)"
    by (rule scan_unsigned_digits [OF ino tail])
  show ?thesis
    unfolding line sscanf_line_def
    by (simp only: a b c d e f g h i j k l m option.case prod.case Let_def if_False)
qed

lemma all_space_blank: "all_space [CHR '' '']" "all_space []"
  by (simp_all add: all_space_def isspace_def)

lemma line_feed_space: "isspace line_feed"
  by (simp add: isspace_def line_feed_def)

lemma parse_fields_tail:
  assumes f: "sscanf_line (pre @ tail) = Some ((start_v, end_v, perms, offset_v), skip_space tail)"
    and sep: "all_space sep" "line_feed \<notin> set sep"
    and path: "line_feed \<notin> set path" "no_space_first path"
    and ne: "path \<noteq> [] \<longrightarrow> sep \<noteq> []"
    and em: "path = [] \<longrightarrow> no_space_first rest"
    and tail: "tail = sep @ path @ line_feed # rest"
  shows "sentry__procmaps_parse_module_line (pre @ tail) =
     Some (length (pre @ tail) - length rest,
           \<lparr>start = start_v, end_p = end_v, offset_p = offset_v, permissions = perms,
              file_p = (if path = [] then \<lparr>ptr = None, len = 0\<rparr>
                        else \<lparr>ptr = Some (path @ line_feed # rest), len = length path\<rparr>)\<rparr>)"
proof (cases "path = []")
  case True
  have "all_space (sep @ [line_feed])"
    using sep(1) line_feed_space by (simp add: all_space_def)
  then have "skip_space ((sep @ [line_feed]) @ rest) = skip_space rest"
    by (rule skip_space_append)
  then have sk: "skip_space tail = rest"
    using True em by (simp add: tail skip_space_id)
  define consumed where "consumed = length pre + length sep + 1"
  have len: "consumed = length (pre @ tail) - length rest"
    by (simp add: tail True consumed_def)
  have nth: "(pre @ tail) ! (consumed - 1) = line_feed"
    by (simp add: tail True nth_append consumed_def)
  have "consumed \<noteq> 0" by (simp add: consumed_def)
  from parse_no_path [OF f [unfolded sk] len this nth] show ?thesis
    using True len by simp
next
  case False
  then have sne: "sep \<noteq> []" using ne by simp
  have "no_space_first (path @ line_feed # rest)"
    using False path(2) by (cases path) (simp_all add: no_space_first_def)
  then have sk: "skip_space tail = path @ line_feed # rest"
    using sep(1) by (simp add: tail skip_space_append skip_space_id)
  define consumed where "consumed = length pre + length sep"
  have len: "consumed = length (pre @ tail) - length (path @ line_feed # rest)"
    by (simp add: tail consumed_def)
  have "(pre @ tail) ! (consumed - 1) = (pre @ sep) ! (length (pre @ sep) - 1)"
    using sne by (simp add: tail nth_append consumed_def)
  also have "\<dots> = last (pre @ sep)"
    using sne by (simp add: last_conv_nth)
  also have "\<dots> = last sep" using sne by simp
  finally have nth: "(pre @ tail) ! (consumed - 1) \<noteq> line_feed"
    using sep(2) sne last_in_set by metis
  have tw: "length path = length (takeWhile (\<lambda>c. c \<noteq> line_feed) (path @ line_feed # rest))"
    using path(1) by (subst takeWhile_append2) auto
  have tot: "consumed + length path + 1 = length (pre @ tail) - length rest"
    by (simp add: tail consumed_def)
  have "line_feed \<in> set (path @ line_feed # rest)" by simp
  from parse_path_line [OF f [unfolded sk] len nth this tw] show ?thesis
    using False tot by simp
qed

lemma parse_module_line_well_formed:
  assumes "digits 16 sd" "length sd \<le> 16" and "digits 16 ed" "length ed \<le> 16"
    and "length perms = 4" "no_space_first perms"
    and "digits 16 od" "length od \<le> 16"
    and "digits 16 mj" and "digits 16 mn" and "digits 10 ino"
    and "all_space sep" "line_feed \<notin> set sep"
    and "line_feed \<notin> set path" "no_space_first path"
    and "path \<noteq> [] \<longrightarrow> sep \<noteq> []"
    and "path = [] \<longrightarrow> no_space_first rest"
    and "line = sd @ ''-'' @ ed @ '' '' @ perms @ '' '' @ od @ '' '' @ mj @ '':'' @ mn
                @ '' '' @ ino @ sep @ path @ [line_feed]"
  shows "sentry__procmaps_parse_module_line (line @ rest) =
     Some (length line,
           \<lparr>start = of_nat (digits_val 16 sd), end_p = of_nat (digits_val 16 ed),
              offset_p = of_nat (digits_val 16 od), permissions = perms,
              file_p = (if path = [] then \<lparr>ptr = None, len = 0\<rparr>
                        else \<lparr>ptr = Some (path @ line_feed # rest), len = length path\<rparr>)\<rparr>)"
proof -
  define tail where "tail = sep @ path @ line_feed # rest"
  define pre where "pre = sd @ CHR ''-'' # ed @ CHR '' '' # perms @ CHR '' '' # od @ CHR '' '' # mj
                @ CHR '':'' # mn @ CHR '' '' # ino"
  have l: "line @ rest = pre @ tail"
    by (simp add: assms(18) pre_def tail_def)
  have st: "stops 10 tail"
  proof (cases "sep = []")
    case True
    then have "path = []" using assms(16) by auto
    then show ?thesis using True line_feed_space by (simp add: tail_def space_stops)
  next
    case False
    then show ?thesis unfolding tail_def using assms(12) by (rule stops_space [rotated])
  qed
  have "sscanf_line ([] @ sd @ CHR ''-'' # [] @ ed @ [CHR '' ''] @ perms @ [CHR '' ''] @ od
            @ [CHR '' ''] @ mj @ CHR '':'' # [] @ mn @ [CHR '' ''] @ ino @ tail)
     = Some ((strtoul_value False (digits_val 16 sd), strtoul_value False (digits_val 16 ed),
              perms, strtoul_value False (digits_val 16 od)), skip_space tail)"
    by (rule sscanf_line_fields)
       (use assms all_space_blank st in simp_all)
  then have f: "sscanf_line (pre @ tail)
     = Some ((of_nat (digits_val 16 sd), of_nat (digits_val 16 ed), perms,
              of_nat (digits_val 16 od)), skip_space tail)"
    using assms by (simp add: pre_def hex_value_fits)
  have "length (pre @ tail) - length rest = length line"
    by (simp add: l [symmetric])
  then show ?thesis
    using parse_fields_tail [OF f assms(12,13,14,15,16,17) tail_def] by (simp add: l)
qed



lemma eval_digits:
  "digits base (c # cs) \<longleftrightarrow> is_digit base c \<and> (cs = [] \<or> digits base cs)"
  by (auto simp: digits_def)

lemma eval_all_space: "all_space (c # cs) \<longleftrightarrow> isspace c \<and> all_space cs" "all_space []"
  by (auto simp: all_space_def)





section \<open>Properties of the enumeration\<close>

lemma strchr_slice:
  assumes "k \<le> length cs" and "k < length cs \<longrightarrow> cs ! k \<noteq> c"
  shows "(case strchr cs c of None \<Rightarrow> True | Some slash \<Rightarrow> slash > k) \<longleftrightarrow> c \<notin> set (take k cs)"
proof (cases "c \<in> set cs")
  case False
  then have "c \<notin> set (take k cs)" using set_take_subset [of k cs] by blast
  then show ?thesis using False by (simp add: strchr_def)
next
  case True
  define s where "s = length (takeWhile (\<lambda>x. x \<noteq> c) cs)"
  have st: "strchr cs c = Some s" using True by (simp add: strchr_def s_def)
  have slt: "s < length cs" unfolding s_def using True by (rule takeWhile_shorter)
  have at: "cs ! s = c"
    using nth_length_takeWhile [of "\<lambda>x. x \<noteq> c" cs] slt by (simp add: s_def)
  have before: "\<And>i. i < s \<Longrightarrow> cs ! i \<noteq> c"
  proof -
    fix i assume "i < s"
    then have "i < length (takeWhile (\<lambda>x. x \<noteq> c) cs)" by (simp add: s_def)
    then have i: "i < length (takeWhile (\<lambda>x. x \<noteq> c) cs)" .
    have "takeWhile (\<lambda>x. x \<noteq> c) cs ! i \<in> set (takeWhile (\<lambda>x. x \<noteq> c) cs)"
      using i by (rule nth_mem)
    moreover have "takeWhile (\<lambda>x. x \<noteq> c) cs ! i = cs ! i"
      using i by (rule takeWhile_nth)
    ultimately show "cs ! i \<noteq> c" using set_takeWhileD by metis
  qed
  show ?thesis
  proof
    assume "case strchr cs c of None \<Rightarrow> True | Some slash \<Rightarrow> slash > k"
    then have "k < s" by (simp add: st)
    show "c \<notin> set (take k cs)"
    proof
      assume "c \<in> set (take k cs)"
      then obtain i where "i < length (take k cs)" "take k cs ! i = c"
        by (auto simp: in_set_conv_nth)
      then have "i < s" "cs ! i = c" using \<open>k < s\<close> by auto
      then show False using before by blast
    qed
  next
    assume n: "c \<notin> set (take k cs)"
    have "\<not> s < k"
    proof
      assume "s < k"
      then have "take k cs ! s = c" "s < length (take k cs)" using at slt by auto
      then show False using n by (metis nth_mem)
    qed
    moreover have "s \<noteq> k" using assms(2) at slt by auto
    ultimately show "case strchr cs c of None \<Rightarrow> True | Some slash \<Rightarrow> slash > k"
      by (simp add: st)
  qed
qed

lemma line_filter_vdso:
  "start p \<noteq> 0 \<and> start p = linux_vdso \<Longrightarrow>
     line_filter linux_vdso p = Some (p\<lparr>file_p := LINUX_GATE\<rparr>)"
  by (auto simp add: line_filter_def)

lemma line_filter_kept: "line_filter linux_vdso p = Some kept \<Longrightarrow>
     \<not> (start p \<noteq> 0 \<and> start p = linux_vdso) \<Longrightarrow> kept = p"
  by (auto simp: line_filter_def split: if_splits)

lemma line_filter_slice:
  assumes nv: "\<not> (start p \<noteq> 0 \<and> start p = linux_vdso)"
    and perms: "length (permissions p) = 4"
    and f: "file_p p = \<lparr>ptr = Some cs, len = k\<rparr>"
    and k: "k \<le> length cs" "k < length cs \<longrightarrow> cs ! k \<noteq> CHR ''/''"
  shows "line_filter linux_vdso p = None \<longleftrightarrow>
     start p = 0 \<or> slice_chars (file_p p) = [] \<or> hd (permissions p) \<noteq> CHR ''r''
     \<or> last (slice_chars (file_p p)) = CHR '')''
     \<or> CHR ''/'' \<notin> set (slice_chars (file_p p))
     \<or> take 5 (slice_chars (file_p p)) = ''/dev/''"
proof -
  have path: "slice_chars (file_p p) = take k cs" by (simp add: slice_chars_def f)
  have e: "slice_chars (file_p p) = [] \<longleftrightarrow> k = 0" using k(1) by (auto simp: path)
  have h: "permissions p ! 0 = hd (permissions p)"
    using perms by (cases "permissions p") auto
  have l: "k \<noteq> 0 \<Longrightarrow> cs ! (k - 1) = last (slice_chars (file_p p))"
  proof -
    assume "k \<noteq> 0"
    then have "take k cs \<noteq> []" "length (take k cs) = k" using k(1) by auto
    then have "last (take k cs) = take k cs ! (k - 1)" by (simp add: last_conv_nth)
    then show ?thesis using \<open>k \<noteq> 0\<close> by (simp add: path)
  qed
  have d: "(5 \<le> k \<and> take 5 cs = ''/dev/'') \<longleftrightarrow> take 5 (slice_chars (file_p p)) = ''/dev/''"
  proof (cases "5 \<le> k")
    case True
    then show ?thesis by (simp add: path min.absorb1)
  next
    case False
    then have "length (take 5 (take k cs)) < 5" by simp
    moreover have "length ''/dev/'' = 5" by simp
    ultimately have "take 5 (take k cs) \<noteq> ''/dev/''" by (metis less_irrefl)
    then show ?thesis using False by (simp add: path)
  qed
  have s: "(case strchr cs (CHR ''/'') of None \<Rightarrow> True | Some slash \<Rightarrow> slash > k)
      \<longleftrightarrow> CHR ''/'' \<notin> set (slice_chars (file_p p))"
    unfolding path using k by (rule strchr_slice)
  have lenk: "len (file_p p) = k" and chars: "ptr_chars (file_p p) = cs"
    by (simp_all add: f ptr_chars_def)
  define discard where "discard \<longleftrightarrow>
     start p = 0 \<or> k = 0 \<or> permissions p ! 0 \<noteq> CHR ''r'' \<or> cs ! (k - 1) = CHR '')''
     \<or> (case strchr cs (CHR ''/'') of None \<Rightarrow> True | Some slash \<Rightarrow> slash > k)
     \<or> (5 \<le> k \<and> take 5 cs = ''/dev/'')"
  have "line_filter linux_vdso p = (if discard then None else Some p)"
    unfolding line_filter_def lenk chars discard_def by (simp only: nv if_False)
  then have "line_filter linux_vdso p = None \<longleftrightarrow> discard" by simp
  also have "discard \<longleftrightarrow>
     start p = 0 \<or> slice_chars (file_p p) = [] \<or> hd (permissions p) \<noteq> CHR ''r''
     \<or> last (slice_chars (file_p p)) = CHR '')''
     \<or> CHR ''/'' \<notin> set (slice_chars (file_p p))
     \<or> take 5 (slice_chars (file_p p)) = ''/dev/''"
    unfolding discard_def s d h using e l by (cases "k = 0") simp_all
  finally show ?thesis .
qed

lemma line_filter_no_path:
  assumes "\<not> (start p \<noteq> 0 \<and> start p = linux_vdso)" and "file_p p = \<lparr>ptr = None, len = 0\<rparr>"
  shows "line_filter linux_vdso p = None" and "slice_chars (file_p p) = []"
  using assms by (simp_all add: line_filter_def slice_chars_def)

lemma parsed_line_filter:
  assumes p: "sentry__procmaps_parse_module_line line = Some (n, p)"
    and nv: "\<not> (start p \<noteq> 0 \<and> start p = linux_vdso)"
  shows "line_filter linux_vdso p = None \<longleftrightarrow>
     start p = 0 \<or> slice_chars (file_p p) = [] \<or> hd (permissions p) \<noteq> CHR ''r''
     \<or> last (slice_chars (file_p p)) = CHR '')''
     \<or> CHR ''/'' \<notin> set (slice_chars (file_p p))
     \<or> take 5 (slice_chars (file_p p)) = ''/dev/''"
proof -
  from p obtain start_v end_v perms offset_v rest where
    s: "sscanf_line line = Some ((start_v, end_v, perms, offset_v), rest)" and
    pm: "permissions p = perms" and
    c: "(n = length line - length rest \<and> file_p p = \<lparr>ptr = None, len = 0\<rparr>)
     \<or> (line_feed \<in> set rest
         \<and> n = length line - length rest + length (takeWhile (\<lambda>c. c \<noteq> line_feed) rest) + 1
         \<and> file_p p = \<lparr>ptr = Some rest, len = length (takeWhile (\<lambda>c. c \<noteq> line_feed) rest)\<rparr>)
     \<or> (line_feed \<notin> set rest \<and> n = length line
         \<and> file_p p = \<lparr>ptr = Some rest, len = length rest\<rparr>)"
    by (rule parse_module_line_cases)
  have l4: "length (permissions p) = 4" using sscanf_line_shape(2) [OF s] pm by simp
  from c consider
    (none) "file_p p = \<lparr>ptr = None, len = 0\<rparr>"
    | (nl) "line_feed \<in> set rest"
        "file_p p = \<lparr>ptr = Some rest, len = length (takeWhile (\<lambda>c. c \<noteq> line_feed) rest)\<rparr>"
    | (eof) "file_p p = \<lparr>ptr = Some rest, len = length rest\<rparr>"
    by blast
  then show ?thesis
  proof cases
    case none
    then show ?thesis using line_filter_no_path [OF nv none] by simp
  next
    case nl
    define k where "k = length (takeWhile (\<lambda>c. c \<noteq> line_feed) rest)"
    have lt: "k < length rest" unfolding k_def using nl(1) by (rule takeWhile_shorter)
    have "rest ! k = line_feed"
      using nth_length_takeWhile [of "\<lambda>c. c \<noteq> line_feed" rest] lt by (simp add: k_def)
    then have "rest ! k \<noteq> CHR ''/''" by (simp add: line_feed_def)
    then show ?thesis
      using line_filter_slice [OF nv l4 nl(2) [folded k_def]] lt by simp
  next
    case eof
    show ?thesis using line_filter_slice [OF nv l4 eof] by simp
  qed
qed

text \<open>
  C5. For a line that was parsed: when its start address is not zero and equals the vDSO
  base, the line is kept with the path \<open>linux-gate.so\<close>. Otherwise it is discarded exactly
  when its start address is zero, its path is empty, its first permission character is
  not \<open>r\<close>, the last character of its path is a closing parenthesis, its path contains
  no slash, or its path begins with \<open>/dev/\<close>, and it is kept unchanged when none of
  these holds. A discarded line leaves the modules and the module being built as they
  were; a kept line is pushed onto the module being built, which is a fresh one when the
  path differs from the path of the module built so far.
\<close>

theorem load_modules_line_filter:
  assumes "sentry__procmaps_parse_module_line line = Some (n, p)"
  shows "(start p \<noteq> 0 \<and> start p = linux_vdso \<longrightarrow>
            line_filter linux_vdso p = Some (p\<lparr>file_p := LINUX_GATE\<rparr>)
            \<and> slice_chars LINUX_GATE = ''linux-gate.so'')
       \<and> (\<not> (start p \<noteq> 0 \<and> start p = linux_vdso) \<longrightarrow>
            (line_filter linux_vdso p = None \<longleftrightarrow>
               start p = 0 \<or> slice_chars (file_p p) = [] \<or> hd (permissions p) \<noteq> CHR ''r''
               \<or> last (slice_chars (file_p p)) = CHR '')''
               \<or> CHR ''/'' \<notin> set (slice_chars (file_p p))
               \<or> take 5 (slice_chars (file_p p)) = ''/dev/'')
            \<and> (line_filter linux_vdso p \<noteq> None \<longrightarrow> line_filter linux_vdso p = Some p))
       \<and> (line_filter linux_vdso p = None \<longrightarrow>
            load_modules_line mem linux_vdso (modules, last_module) p = (modules, last_module))
       \<and> (\<forall>kept. line_filter linux_vdso p = Some kept \<longrightarrow>
            snd (load_modules_line mem linux_vdso (modules, last_module) p)
              = sentry__module_mapping_push
                  ((if len (file_m last_module) \<noteq> 0
                       \<and> \<not> sentry__slice_eq (file_m last_module) (file_p kept)
                    then zero_module else last_module)\<lparr>file_m := file_p kept\<rparr>) kept)"
proof (intro conjI impI allI)
  assume v: "start p \<noteq> 0 \<and> start p = linux_vdso"
  then show "line_filter linux_vdso p = Some (p\<lparr>file_p := LINUX_GATE\<rparr>)"
    by (rule line_filter_vdso)
  show "slice_chars LINUX_GATE = ''linux-gate.so''"
    by (simp add: slice_chars_def LINUX_GATE_def)
next
  assume nv: "\<not> (start p \<noteq> 0 \<and> start p = linux_vdso)"
  show "line_filter linux_vdso p = None \<longleftrightarrow>
               start p = 0 \<or> slice_chars (file_p p) = [] \<or> hd (permissions p) \<noteq> CHR ''r''
               \<or> last (slice_chars (file_p p)) = CHR '')''
               \<or> CHR ''/'' \<notin> set (slice_chars (file_p p))
               \<or> take 5 (slice_chars (file_p p)) = ''/dev/''"
    using assms nv by (rule parsed_line_filter)
  assume "line_filter linux_vdso p \<noteq> None"
  then show "line_filter linux_vdso p = Some p"
    using line_filter_kept [OF _ nv] by auto
next
  assume "line_filter linux_vdso p = None"
  then show "load_modules_line mem linux_vdso (modules, last_module) p = (modules, last_module)"
    by (simp add: load_modules_line_def)
next
  fix kept assume "line_filter linux_vdso p = Some kept"
  then show "snd (load_modules_line mem linux_vdso (modules, last_module) p)
              = sentry__module_mapping_push
                  ((if len (file_m last_module) \<noteq> 0
                       \<and> \<not> sentry__slice_eq (file_m last_module) (file_p kept)
                    then zero_module else last_module)\<lparr>file_m := file_p kept\<rparr>) kept"
    by (simp add: load_modules_line_def accumulate_def)
qed

theorem load_modules_line_filter_witness:
  "sentry__procmaps_parse_module_line libc_line = Some (85, libc_parsed)
   \<and> line_filter 0x7ffd00000000 libc_parsed = Some libc_parsed
   \<and> line_filter 0x7f1234560000 libc_parsed = Some (libc_parsed\<lparr>file_p := LINUX_GATE\<rparr>)
   \<and> snd (load_modules_line zero_memory 0x7ffd00000000 (sentry_value_new_list, zero_module)
            libc_parsed)
       = sentry__module_mapping_push (zero_module\<lparr>file_m := file_p libc_parsed\<rparr>) libc_parsed"
proof -
  have d: "digits 16 ''7f1234560000''" "digits 16 ''7f1234580000''" "digits 16 ''00000000''"
    "digits 16 ''08''" "digits 16 ''01''" "digits 10 ''131073''"
    by (simp_all add: eval_digits is_digit_def digit_of_def)
  have l: "length ''7f1234560000'' \<le> 16" "length ''7f1234580000'' \<le> 16"
    "length ''00000000'' \<le> 16" "length ''r-xp'' = 4"
    by simp_all
  have s: "no_space_first ''r-xp''" "all_space '' ''" "line_feed \<notin> set '' ''"
    "line_feed \<notin> set ''/lib/x86_64-linux-gnu/libc.so.6''"
    "no_space_first ''/lib/x86_64-linux-gnu/libc.so.6''"
    "''/lib/x86_64-linux-gnu/libc.so.6'' \<noteq> [] \<longrightarrow> '' '' \<noteq> []"
    "''/lib/x86_64-linux-gnu/libc.so.6'' = [] \<longrightarrow> no_space_first []"
    by (simp_all add: no_space_first_def eval_all_space isspace_def line_feed_def)
  have v: "(of_nat (digits_val 16 ''7f1234560000'') :: u64) = 0x7f1234560000"
    "(of_nat (digits_val 16 ''7f1234580000'') :: u64) = 0x7f1234580000"
    "(of_nat (digits_val 16 ''00000000'') :: u64) = 0"
    by (simp_all add: digits_val_def digit_val_def digit_of_def)
  have p: "sentry__procmaps_parse_module_line libc_line = Some (85, libc_parsed)"
    using parse_module_line_well_formed [OF d(1) l(1) d(2) l(2) l(4) s(1) d(3) l(3) d(4) d(5)
        d(6) s(2) s(3) s(4) s(5) s(6) s(7) refl]
    unfolding v by (simp add: libc_line_def libc_parsed_def)
  have path: "slice_chars (file_p libc_parsed) = ''/lib/x86_64-linux-gnu/libc.so.6''"
    by (simp add: libc_parsed_def slice_chars_def)
  have f: "start libc_parsed = 0x7f1234560000" "hd (permissions libc_parsed) = CHR ''r''"
    "len (file_m zero_module) = 0"
    by (simp_all add: libc_parsed_def zero_module_def null_slice_def)
  have a: "line_filter 0x7ffd00000000 libc_parsed = Some libc_parsed"
    using load_modules_line_filter [OF p, of "0x7ffd00000000"] by (simp add: path f)
  have b: "line_filter 0x7f1234560000 libc_parsed = Some (libc_parsed\<lparr>file_p := LINUX_GATE\<rparr>)"
    using load_modules_line_filter [OF p, of "0x7f1234560000"] by (simp add: f)
  have c: "snd (load_modules_line zero_memory 0x7ffd00000000 (sentry_value_new_list, zero_module)
            libc_parsed)
       = sentry__module_mapping_push (zero_module\<lparr>file_m := file_p libc_parsed\<rparr>) libc_parsed"
    using load_modules_line_filter [OF p, of "0x7ffd00000000" zero_memory sentry_value_new_list
        zero_module] a f(3)
    by simp
  show ?thesis using p a b c by simp
qed

section \<open>Properties of the cache\<close>

lemma try_append_module_list:
  "\<exists>ys. try_append_module mem (ValueList False xs) module = ValueList False ys"
  by (simp add: try_append_module_def sentry_value_append_def Let_def)

lemma load_modules_line_list:
  "\<exists>ys last1. load_modules_line mem linux_vdso (ValueList False xs, last_module) module
      = (ValueList False ys, last1)"
proof (cases "line_filter linux_vdso module")
  case None
  then show ?thesis by (simp add: load_modules_line_def)
next
  case (Some kept)
  obtain ys where "try_append_module mem (ValueList False xs) last_module = ValueList False ys"
    using try_append_module_list by blast
  then show ?thesis using Some
    by (simp add: load_modules_line_def accumulate_def)
qed

lemma load_modules_loop_list:
  "\<exists>ys. load_modules_loop mem linux_vdso current_line (ValueList False xs, last_module)
      = ValueList False ys"
proof (induction mem linux_vdso current_line "(ValueList False xs, last_module)"
    arbitrary: xs last_module rule: load_modules_loop.induct)
  case (1 mem linux_vdso current_line)
  show ?case
  proof (cases "sentry__procmaps_parse_module_line current_line")
    case None
    have "load_modules_loop mem linux_vdso current_line (ValueList False xs, last_module)
        = try_append_module mem (ValueList False xs) last_module"
      by (subst load_modules_loop.simps) (simp only: None option.case fst_conv snd_conv)
    then show ?thesis
      using try_append_module_list [of mem xs last_module] by simp
  next
    case (Some r)
    obtain read_n module where r: "r = (read_n, module)" by (cases r)
    obtain ys last1 where
      st: "load_modules_line mem linux_vdso (ValueList False xs, last_module) module
            = (ValueList False ys, last1)"
      using load_modules_line_list by blast
    have "\<exists>zs. load_modules_loop mem linux_vdso (drop read_n current_line)
             (ValueList False ys, last1) = ValueList False zs"
      using "1.hyps" [OF Some r [symmetric] st] .
    moreover have "load_modules_loop mem linux_vdso current_line (ValueList False xs, last_module)
        = load_modules_loop mem linux_vdso (drop read_n current_line)
            (ValueList False ys, last1)"
      by (subst load_modules_loop.simps) (simp only: Some r option.case prod.case st)
    ultimately show ?thesis by simp
  qed
qed

lemma load_modules_list:
  "\<exists>ys. load_modules proc sentry_value_new_list = ValueList False ys"
  using load_modules_loop_list [of _ _ _ "[]"]
  by (simp add: load_modules_def sentry_value_new_list_def split: option.splits)

text \<open>
  C9. A call of \<^verbatim>\<open>sentry_get_modules_list\<close> that follows another one, with no
  \<^verbatim>\<open>sentry_clear_modulecache\<close> in between, returns the list the first one returned and
  leaves the cache as it was, whatever the process looks like by then: the list is not
  built again. The first call on the initial cache, and the first call after
  \<^verbatim>\<open>sentry_clear_modulecache\<close>, return the frozen list that \<^verbatim>\<open>load_modules\<close> builds at
  that moment, which is a list with its frozen flag set.
\<close>

theorem modules_list_cached:
  "fst (sentry_get_modules_list proc2 (snd (sentry_get_modules_list proc1 cache)))
     = fst (sentry_get_modules_list proc1 cache)
   \<and> snd (sentry_get_modules_list proc2 (snd (sentry_get_modules_list proc1 cache)))
     = snd (sentry_get_modules_list proc1 cache)
   \<and> g_initialized (snd (sentry_get_modules_list proc1 cache))
   \<and> fst (sentry_get_modules_list proc1 initial_cache)
     = sentry_value_freeze (load_modules proc1 sentry_value_new_list)
   \<and> \<not> g_initialized (sentry_clear_modulecache cache)
   \<and> fst (sentry_get_modules_list proc2 (sentry_clear_modulecache cache))
     = sentry_value_freeze (load_modules proc2 sentry_value_new_list)
   \<and> (\<exists>descriptors. fst (sentry_get_modules_list proc2 (sentry_clear_modulecache cache))
          = ValueList True descriptors)"
proof -
  obtain ys where "load_modules proc2 sentry_value_new_list = ValueList False ys"
    using load_modules_list by blast
  then have "fst (sentry_get_modules_list proc2 (sentry_clear_modulecache cache))
      = ValueList True ys"
    by (simp add: sentry_get_modules_list_def sentry_clear_modulecache_def
        sentry_value_freeze_def)
  then show ?thesis
    by (simp add: sentry_get_modules_list_def sentry_clear_modulecache_def initial_cache_def
        Let_def)
qed

end
